theory Spec2Isabelle
  imports Complex_Main "HOL-Library.Word"
begin

section \<open>Handles, errors and driver calls\<close>

text \<open>
  Vulkan handles are opaque; they are modelled as natural numbers, with \<open>0\<close> standing for
  \<open>VK_NULL_HANDLE\<close>. Query slot indices are \<open>uint32_t\<close> values that are only compared and
  used as vector indices (no arithmetic is done on them), so they are natural numbers
  too. Counters that the code increments or decrements are 32-bit words.
\<close>

type_synonym VkDevice = nat
type_synonym VkQueryPool = nat
type_synonym VkCommandBuffer = nat
type_synonym VkCommandPool = nat
type_synonym VkQueue = nat

definition VK_NULL_HANDLE :: nat where
  "VK_NULL_HANDLE = 0"

text \<open>
  Every way the code can stop abnormally is a value: a failed \<open>CHECK\<close>, the exception of
  \<open>flat_hash_map::at\<close> or \<open>vector::at\<close> on a missing key or index, the exception of
  \<open>optional::value\<close> on an empty optional, and undefined behaviour (an unchecked
  \<open>operator[]\<close> out of range, \<open>top\<close>/\<open>pop\<close> of an empty stack).
\<close>

datatype error = CheckFailed | OutOfRange | BadOptionalAccess | UndefinedBehaviour

datatype PipelineStage = VK_PIPELINE_STAGE_TOP_OF_PIPE_BIT | VK_PIPELINE_STAGE_BOTTOM_OF_PIPE_BIT

text \<open>The calls made through the dispatch table, kept in the order they are issued.\<close>

datatype DriverCall =
    CmdWriteTimestamp VkCommandBuffer PipelineStage VkQueryPool nat
  | ResetQueryPoolEXT VkDevice VkQueryPool nat nat
  | DestroyQueryPool VkDevice VkQueryPool
  | GetQueryPoolResults VkDevice VkQueryPool nat

section \<open>TimerQueryPool\<close>

datatype SlotState = kReadyForQueryIssue | kQueryPendingOnGpu

record TimerQueryPool =
  num_timer_query_slots :: nat
  device_to_query_pool :: "VkDevice \<rightharpoonup> VkQueryPool"
  device_to_query_slots :: "VkDevice \<rightharpoonup> SlotState list"
  device_to_free_slots :: "VkDevice \<rightharpoonup> nat list"
  dispatch_calls :: "DriverCall list"

text \<open>
  \<open>InitializeTimerQueryPool\<close>: the result of the driver's \<open>CreateQueryPool\<close> is the
  argument \<open>created\<close> (\<open>None\<close> when the driver does not return \<open>VK_SUCCESS\<close>).
\<close>

definition InitializeTimerQueryPool ::
  "VkDevice \<Rightarrow> VkQueryPool option \<Rightarrow> TimerQueryPool \<Rightarrow> error + TimerQueryPool" where
  "InitializeTimerQueryPool device created p =
     (case created of
        None \<Rightarrow> Inl CheckFailed
      | Some query_pool \<Rightarrow>
          if device_to_query_pool p device \<noteq> None then Inl CheckFailed
          else Inr (p\<lparr>device_to_query_pool := (device_to_query_pool p)(device \<mapsto> query_pool),
                      device_to_query_slots := (device_to_query_slots p)
                        (device \<mapsto> replicate (num_timer_query_slots p) kReadyForQueryIssue),
                      device_to_free_slots := (device_to_free_slots p)
                        (device \<mapsto> [0..<num_timer_query_slots p]),
                      dispatch_calls := dispatch_calls p @
                        [ResetQueryPoolEXT device query_pool 0 (num_timer_query_slots p)]\<rparr>))"

definition DestroyTimerQueryPool :: "VkDevice \<Rightarrow> TimerQueryPool \<Rightarrow> error + TimerQueryPool" where
  "DestroyTimerQueryPool device p =
     (case device_to_query_pool p device of
        None \<Rightarrow> Inl CheckFailed
      | Some query_pool \<Rightarrow>
          Inr (p\<lparr>device_to_query_pool := (device_to_query_pool p)(device := None),
                  device_to_query_slots := (device_to_query_slots p)(device := None),
                  device_to_free_slots := (device_to_free_slots p)(device := None),
                  dispatch_calls := dispatch_calls p @ [DestroyQueryPool device query_pool]\<rparr>))"

definition GetQueryPool :: "VkDevice \<Rightarrow> TimerQueryPool \<Rightarrow> error + VkQueryPool" where
  "GetQueryPool device p =
     (case device_to_query_pool p device of
        None \<Rightarrow> Inl CheckFailed
      | Some query_pool \<Rightarrow> Inr query_pool)"

text \<open>
  \<open>NextReadyQuerySlot\<close> returns \<open>false\<close> (here \<open>None\<close>) when the free list is empty, and
  otherwise the back of the free list. The state vector is read with \<open>operator[]\<close>.
\<close>

definition NextReadyQuerySlot ::
  "VkDevice \<Rightarrow> TimerQueryPool \<Rightarrow> error + (nat option \<times> TimerQueryPool)" where
  "NextReadyQuerySlot device p =
     (case device_to_free_slots p device of
        None \<Rightarrow> Inl CheckFailed
      | Some free_slots \<Rightarrow>
         (case device_to_query_slots p device of
            None \<Rightarrow> Inl CheckFailed
          | Some slot_states \<Rightarrow>
              if free_slots = [] then Inr (None, p)
              else
                let allocated_index = last free_slots in
                if \<not> allocated_index < length slot_states then Inl UndefinedBehaviour
                else if slot_states ! allocated_index \<noteq> kReadyForQueryIssue then Inl CheckFailed
                else Inr (Some allocated_index,
                       p\<lparr>device_to_free_slots :=
                           (device_to_free_slots p)(device \<mapsto> butlast free_slots),
                         device_to_query_slots :=
                           (device_to_query_slots p)
                             (device \<mapsto> slot_states[allocated_index := kQueryPendingOnGpu])\<rparr>)))"

text \<open>
  The loop of \<open>ResetQuerySlotsInternal\<close> over \<open>slot_indices\<close>. It works on the device's
  state vector and free list (references into the maps) and on the log of driver calls;
  \<open>query_pool\<close> is the entry of \<open>device_to_query_pool_\<close>, looked up with \<open>at\<close> only when the
  slot is reset in hardware.
\<close>

fun ResetQuerySlots_loop ::
  "nat \<Rightarrow> VkDevice \<Rightarrow> VkQueryPool option \<Rightarrow> bool \<Rightarrow> nat list \<Rightarrow>
   SlotState list \<times> nat list \<times> DriverCall list \<Rightarrow>
   error + (SlotState list \<times> nat list \<times> DriverCall list)" where
  "ResetQuerySlots_loop n device query_pool rollback_only [] st = Inr st"
| "ResetQuerySlots_loop n device query_pool rollback_only (slot_index # rest)
     (slot_states, free_slots, calls) =
     (if \<not> slot_index < n then Inl CheckFailed
      else if \<not> slot_index < length slot_states then Inl OutOfRange
      else if slot_states ! slot_index \<noteq> kQueryPendingOnGpu then Inl CheckFailed
      else
        let slot_states' = slot_states[slot_index := kReadyForQueryIssue];
            free_slots' = free_slots @ [slot_index]
        in if rollback_only
           then ResetQuerySlots_loop n device query_pool rollback_only rest
                  (slot_states', free_slots', calls)
           else (case query_pool of
                   None \<Rightarrow> Inl OutOfRange
                 | Some qp \<Rightarrow>
                     ResetQuerySlots_loop n device query_pool rollback_only rest
                       (slot_states', free_slots',
                        calls @ [ResetQueryPoolEXT device qp slot_index 1])))"

definition ResetQuerySlotsInternal ::
  "VkDevice \<Rightarrow> nat list \<Rightarrow> bool \<Rightarrow> TimerQueryPool \<Rightarrow> error + TimerQueryPool" where
  "ResetQuerySlotsInternal device slot_indices rollback_only p =
     (if slot_indices = [] then Inr p
      else
        (case device_to_query_slots p device of
           None \<Rightarrow> Inl CheckFailed
         | Some slot_states \<Rightarrow>
            (case device_to_free_slots p device of
               None \<Rightarrow> Inl OutOfRange
             | Some free_slots \<Rightarrow>
                (case ResetQuerySlots_loop (num_timer_query_slots p) device
                        (device_to_query_pool p device) rollback_only slot_indices
                        (slot_states, free_slots, dispatch_calls p) of
                   Inl e \<Rightarrow> Inl e
                 | Inr (slot_states', free_slots', calls') \<Rightarrow>
                     Inr (p\<lparr>device_to_query_slots :=
                               (device_to_query_slots p)(device \<mapsto> slot_states'),
                             device_to_free_slots :=
                               (device_to_free_slots p)(device \<mapsto> free_slots'),
                             dispatch_calls := calls'\<rparr>)))))"

definition ResetQuerySlots :: "VkDevice \<Rightarrow> nat list \<Rightarrow> TimerQueryPool \<Rightarrow> error + TimerQueryPool" where
  "ResetQuerySlots device slot_indices p = ResetQuerySlotsInternal device slot_indices False p"

definition RollbackPendingQuerySlots ::
  "VkDevice \<Rightarrow> nat list \<Rightarrow> TimerQueryPool \<Rightarrow> error + TimerQueryPool" where
  "RollbackPendingQuerySlots device slot_indices p =
     ResetQuerySlotsInternal device slot_indices True p"

subsection \<open>The slot invariant\<close>

definition ready_count :: "SlotState list \<Rightarrow> nat" where
  "ready_count slot_states = length (filter (\<lambda>s. s = kReadyForQueryIssue) slot_states)"

definition pending_count :: "SlotState list \<Rightarrow> nat" where
  "pending_count slot_states = length (filter (\<lambda>s. s = kQueryPendingOnGpu) slot_states)"

text \<open>
  For one device: the state vector has \<open>N\<close> entries, and the free list holds each ready
  slot once and nothing else.
\<close>

definition slots_inv :: "nat \<Rightarrow> SlotState list \<Rightarrow> nat list \<Rightarrow> bool" where
  "slots_inv n slot_states free_slots \<longleftrightarrow>
     length slot_states = n \<and> distinct free_slots \<and>
     set free_slots = set (filter (\<lambda>i. slot_states ! i = kReadyForQueryIssue) [0..<n])"

text \<open>
  For the pool: the three maps have the same devices, and the slot invariant holds for each
  of them.
\<close>

definition pool_inv :: "TimerQueryPool \<Rightarrow> bool" where
  "pool_inv p \<longleftrightarrow>
     (\<forall>device. (device_to_query_slots p device = None) = (device_to_query_pool p device = None)) \<and>
     (\<forall>device. (device_to_free_slots p device = None) = (device_to_query_pool p device = None)) \<and>
     (\<forall>device slot_states free_slots.
        device_to_query_slots p device = Some slot_states \<longrightarrow>
        device_to_free_slots p device = Some free_slots \<longrightarrow>
        slots_inv (num_timer_query_slots p) slot_states free_slots)"

text \<open>A pool of capacity \<open>n\<close> before any device is initialized.\<close>

definition new_TimerQueryPool :: "nat \<Rightarrow> TimerQueryPool" where
  "new_TimerQueryPool n =
     \<lparr>num_timer_query_slots = n, device_to_query_pool = Map.empty,
      device_to_query_slots = Map.empty, device_to_free_slots = Map.empty,
      dispatch_calls = []\<rparr>"

section \<open>SubmissionTracker: data\<close>

text \<open>
  Field names are those of the source. Where two structs use the same field name, or the
  name is a keyword, the later one carries a prefix: \<open>Marker::text\<close> and \<open>Marker::color\<close> are
  \<open>marker_text\<close> and \<open>marker_color\<close>; \<open>SubmittedMarker::meta_information\<close> and
  \<open>SubmittedMarker::slot_index\<close> are \<open>submitted_meta_information\<close> and
  \<open>submitted_slot_index\<close>; \<open>MarkerState::text\<close> and \<open>MarkerState::color\<close> are \<open>state_text\<close>
  and \<open>state_color\<close>; the two fields of \<open>SubmittedCommandBuffer\<close> are
  \<open>submitted_begin_slot_index\<close> and \<open>submitted_end_slot_index\<close>. Colour channels are
  carried around unchanged and are modelled as reals.
\<close>

datatype MarkerType = kDebugMarkerBegin | kDebugMarkerEnd

record Color =
  red :: real
  green :: real
  blue :: real
  alpha :: real

record SubmissionMetaInformation =
  pre_submission_cpu_timestamp :: nat
  post_submission_cpu_timestamp :: nat
  thread_id :: int

record Marker =
  type :: MarkerType
  slot_index :: "nat option"
  marker_text :: "string option"
  marker_color :: "Color option"

record SubmittedMarker =
  submitted_meta_information :: SubmissionMetaInformation
  submitted_slot_index :: nat

record MarkerState =
  begin_info :: "SubmittedMarker option"
  end_info :: "SubmittedMarker option"
  state_text :: string
  state_color :: Color
  depth :: nat

record CommandBufferState =
  command_buffer_begin_slot_index :: "nat option"
  command_buffer_end_slot_index :: "nat option"
  markers :: "Marker list"
  local_marker_stack_size :: "32 word"

record SubmittedCommandBuffer =
  submitted_begin_slot_index :: "nat option"
  submitted_end_slot_index :: nat

record SubmitInfo =
  command_buffers :: "SubmittedCommandBuffer list"

record QueueSubmission =
  meta_information :: SubmissionMetaInformation
  submit_infos :: "SubmitInfo list"
  completed_markers :: "MarkerState list"
  num_begin_markers :: "32 word"

text \<open>
  The tracker's members. \<open>queue_to_submissions_\<close> is iterated by \<open>PullCompletedSubmissions\<close>,
  so it is an association list (its order is the iteration order of the hash map, which
  is arbitrary). A queue's marker stack is a list with the top at the head. The tracker
  owns a pointer to the slot pool; the pool's state is the field \<open>timer_query_pool\<close>, and
  the calls made through the shared dispatch table are logged there.
\<close>

record SubmissionTracker =
  max_local_marker_depth_per_command_buffer :: "32 word"
  pool_to_command_buffers :: "VkCommandPool \<rightharpoonup> VkCommandBuffer set"
  command_buffer_to_device :: "VkCommandBuffer \<rightharpoonup> VkDevice"
  command_buffer_to_state :: "VkCommandBuffer \<rightharpoonup> CommandBufferState"
  queue_to_submissions :: "(VkQueue \<times> QueueSubmission list) list"
  queue_to_markers :: "VkQueue \<rightharpoonup> MarkerState list"
  timer_query_pool :: TimerQueryPool

definition new_SubmissionTracker :: "32 word \<Rightarrow> TimerQueryPool \<Rightarrow> SubmissionTracker" where
  "new_SubmissionTracker max_depth p =
     \<lparr>max_local_marker_depth_per_command_buffer = max_depth,
      pool_to_command_buffers = Map.empty, command_buffer_to_device = Map.empty,
      command_buffer_to_state = Map.empty, queue_to_submissions = [],
      queue_to_markers = Map.empty, timer_query_pool = p\<rparr>"

section \<open>SubmissionTracker: hooks\<close>

text \<open>
  Each hook takes the tracker and returns the new tracker, or the error that ends the
  process. The value that \<open>IsCapturing\<close> returns in a hook is the argument \<open>capturing\<close>;
  the clock and the thread id are arguments as well.
\<close>

fun TrackCommandBuffers_loop ::
  "VkDevice \<Rightarrow> VkCommandPool \<Rightarrow> VkCommandBuffer list \<Rightarrow> SubmissionTracker \<Rightarrow> SubmissionTracker"
  where
  "TrackCommandBuffers_loop device pool [] s = s"
| "TrackCommandBuffers_loop device pool (cb # rest) s =
     TrackCommandBuffers_loop device pool rest
       (s\<lparr>pool_to_command_buffers := (pool_to_command_buffers s)
             (pool \<mapsto> (case pool_to_command_buffers s pool of
                           None \<Rightarrow> {cb}
                         | Some associated_cbs \<Rightarrow> insert cb associated_cbs)),
           command_buffer_to_device := (command_buffer_to_device s)(cb \<mapsto> device)\<rparr>)"

definition TrackCommandBuffers ::
  "VkDevice \<Rightarrow> VkCommandPool \<Rightarrow> VkCommandBuffer list \<Rightarrow> SubmissionTracker \<Rightarrow>
   error + SubmissionTracker" where
  "TrackCommandBuffers device pool command_buffer_list s =
     (let s1 = (if pool_to_command_buffers s pool = None
                then s\<lparr>pool_to_command_buffers := (pool_to_command_buffers s)(pool \<mapsto> {})\<rparr>
                else s)
      in Inr (TrackCommandBuffers_loop device pool command_buffer_list s1))"

fun UntrackCommandBuffers_loop ::
  "VkDevice \<Rightarrow> VkCommandPool \<Rightarrow> VkCommandBuffer list \<Rightarrow> SubmissionTracker \<Rightarrow>
   error + SubmissionTracker" where
  "UntrackCommandBuffers_loop device pool [] s = Inr s"
| "UntrackCommandBuffers_loop device pool (command_buffer # rest) s =
     (case command_buffer_to_device s command_buffer of
        None \<Rightarrow> Inl CheckFailed
      | Some d \<Rightarrow>
          if d \<noteq> device then Inl CheckFailed
          else UntrackCommandBuffers_loop device pool rest
                 (s\<lparr>pool_to_command_buffers := (pool_to_command_buffers s)
                       (pool \<mapsto> (case pool_to_command_buffers s pool of
                                     None \<Rightarrow> {}
                                   | Some associated \<Rightarrow> associated - {command_buffer})),
                     command_buffer_to_device :=
                       (command_buffer_to_device s)(command_buffer := None)\<rparr>))"

definition UntrackCommandBuffers ::
  "VkDevice \<Rightarrow> VkCommandPool \<Rightarrow> VkCommandBuffer list \<Rightarrow> SubmissionTracker \<Rightarrow>
   error + SubmissionTracker" where
  "UntrackCommandBuffers device pool command_buffer_list s =
     (if pool_to_command_buffers s pool = None then Inl CheckFailed
      else
        (case UntrackCommandBuffers_loop device pool command_buffer_list s of
           Inl e \<Rightarrow> Inl e
         | Inr s' \<Rightarrow>
             if pool_to_command_buffers s' pool = Some {}
             then Inr (s'\<lparr>pool_to_command_buffers := (pool_to_command_buffers s')(pool := None)\<rparr>)
             else Inr s'))"

text \<open>
  \<open>RecordTimestamp\<close> rents a slot for the command buffer's device and issues the
  timestamp write; an exhausted pool fails \<open>CHECK(found_slot)\<close>.
\<close>

definition RecordTimestamp ::
  "VkCommandBuffer \<Rightarrow> PipelineStage \<Rightarrow> SubmissionTracker \<Rightarrow> error + (nat \<times> SubmissionTracker)"
  where
  "RecordTimestamp command_buffer pipeline_stage_flags s =
     (case command_buffer_to_device s command_buffer of
        None \<Rightarrow> Inl CheckFailed
      | Some device \<Rightarrow>
         (case GetQueryPool device (timer_query_pool s) of
            Inl e \<Rightarrow> Inl e
          | Inr query_pool \<Rightarrow>
             (case NextReadyQuerySlot device (timer_query_pool s) of
                Inl e \<Rightarrow> Inl e
              | Inr (None, p') \<Rightarrow> Inl CheckFailed
              | Inr (Some slot, p') \<Rightarrow>
                  Inr (slot,
                    s\<lparr>timer_query_pool :=
                        p'\<lparr>dispatch_calls := dispatch_calls p' @
                             [CmdWriteTimestamp command_buffer pipeline_stage_flags
                                query_pool slot]\<rparr>\<rparr>))))"

definition empty_CommandBufferState :: CommandBufferState where
  "empty_CommandBufferState =
     \<lparr>command_buffer_begin_slot_index = None, command_buffer_end_slot_index = None,
      markers = [], local_marker_stack_size = 0\<rparr>"

definition MarkCommandBufferBegin ::
  "bool \<Rightarrow> VkCommandBuffer \<Rightarrow> SubmissionTracker \<Rightarrow> error + SubmissionTracker" where
  "MarkCommandBufferBegin capturing command_buffer s =
     (if command_buffer_to_state s command_buffer \<noteq> None then Inl CheckFailed
      else
        let s1 = s\<lparr>command_buffer_to_state :=
                     (command_buffer_to_state s)(command_buffer \<mapsto> empty_CommandBufferState)\<rparr>
        in if \<not> capturing then Inr s1
           else
            (case RecordTimestamp command_buffer VK_PIPELINE_STAGE_TOP_OF_PIPE_BIT s1 of
               Inl e \<Rightarrow> Inl e
             | Inr (slot, s2) \<Rightarrow>
                (case command_buffer_to_state s2 command_buffer of
                   None \<Rightarrow> Inl OutOfRange
                 | Some state \<Rightarrow>
                     Inr (s2\<lparr>command_buffer_to_state := (command_buffer_to_state s2)
                            (command_buffer \<mapsto>
                               state\<lparr>command_buffer_begin_slot_index := Some slot\<rparr>)\<rparr>))))"

definition MarkCommandBufferEnd ::
  "bool \<Rightarrow> VkCommandBuffer \<Rightarrow> SubmissionTracker \<Rightarrow> error + SubmissionTracker" where
  "MarkCommandBufferEnd capturing command_buffer s =
     (if \<not> capturing then Inr s
      else
        (case RecordTimestamp command_buffer VK_PIPELINE_STAGE_BOTTOM_OF_PIPE_BIT s of
           Inl e \<Rightarrow> Inl e
         | Inr (slot, s2) \<Rightarrow>
            (case command_buffer_to_state s2 command_buffer of
               None \<Rightarrow> Inl CheckFailed
             | Some state \<Rightarrow>
                 Inr (s2\<lparr>command_buffer_to_state := (command_buffer_to_state s2)
                        (command_buffer \<mapsto>
                           state\<lparr>command_buffer_end_slot_index := Some slot\<rparr>)\<rparr>))))"

text \<open>\<open>state.markers.back().slot_index = slot_index\<close>; \<open>back\<close> of an empty vector is undefined.\<close>

definition set_back_slot_index :: "Marker list \<Rightarrow> nat \<Rightarrow> error + Marker list" where
  "set_back_slot_index ms i =
     (if ms = [] then Inl UndefinedBehaviour
      else Inr (butlast ms @ [(last ms)\<lparr>slot_index := Some i\<rparr>]))"

text \<open>The second critical section of both marker hooks: store the slot in the last entry.\<close>

definition attach_marker_slot ::
  "VkCommandBuffer \<Rightarrow> nat \<Rightarrow> SubmissionTracker \<Rightarrow> error + SubmissionTracker" where
  "attach_marker_slot command_buffer i s =
     (case command_buffer_to_state s command_buffer of
        None \<Rightarrow> Inl CheckFailed
      | Some state \<Rightarrow>
         (case set_back_slot_index (markers state) i of
            Inl e \<Rightarrow> Inl e
          | Inr ms \<Rightarrow>
              Inr (s\<lparr>command_buffer_to_state := (command_buffer_to_state s)
                     (command_buffer \<mapsto> state\<lparr>markers := ms\<rparr>)\<rparr>)))"

text \<open>
  The two marker hooks. A marker's text is a string here, so \<open>CHECK(text != nullptr)\<close> has
  no counterpart. \<open>too_many_markers\<close> compares the 32-bit counter after the increment in
  the begin hook and before the decrement in the end hook.
\<close>

definition MarkDebugMarkerBegin ::
  "bool \<Rightarrow> VkCommandBuffer \<Rightarrow> string \<Rightarrow> Color \<Rightarrow> SubmissionTracker \<Rightarrow> error + SubmissionTracker"
  where
  "MarkDebugMarkerBegin capturing command_buffer text color s =
     (case command_buffer_to_state s command_buffer of
        None \<Rightarrow> Inl CheckFailed
      | Some state \<Rightarrow>
          let marker = \<lparr>type = kDebugMarkerBegin, slot_index = None,
                        marker_text = Some text, marker_color = Some color\<rparr>;
              state1 = state\<lparr>markers := markers state @ [marker],
                             local_marker_stack_size := local_marker_stack_size state + 1\<rparr>;
              too_many_markers =
                (max_local_marker_depth_per_command_buffer s > 0 \<and>
                 local_marker_stack_size state1 > max_local_marker_depth_per_command_buffer s);
              s1 = s\<lparr>command_buffer_to_state :=
                       (command_buffer_to_state s)(command_buffer \<mapsto> state1)\<rparr>
          in if \<not> capturing \<or> too_many_markers then Inr s1
             else
              (case RecordTimestamp command_buffer VK_PIPELINE_STAGE_TOP_OF_PIPE_BIT s1 of
                 Inl e \<Rightarrow> Inl e
               | Inr (slot, s2) \<Rightarrow> attach_marker_slot command_buffer slot s2))"

definition MarkDebugMarkerEnd ::
  "bool \<Rightarrow> VkCommandBuffer \<Rightarrow> SubmissionTracker \<Rightarrow> error + SubmissionTracker" where
  "MarkDebugMarkerEnd capturing command_buffer s =
     (case command_buffer_to_state s command_buffer of
        None \<Rightarrow> Inl CheckFailed
      | Some state \<Rightarrow>
          let marker = \<lparr>type = kDebugMarkerEnd, slot_index = None,
                        marker_text = None, marker_color = None\<rparr>;
              too_many_markers =
                (max_local_marker_depth_per_command_buffer s > 0 \<and>
                 local_marker_stack_size state > max_local_marker_depth_per_command_buffer s);
              state1 = state\<lparr>markers := markers state @ [marker],
                             local_marker_stack_size :=
                               (if local_marker_stack_size state \<noteq> 0
                                then local_marker_stack_size state - 1
                                else local_marker_stack_size state)\<rparr>;
              s1 = s\<lparr>command_buffer_to_state :=
                       (command_buffer_to_state s)(command_buffer \<mapsto> state1)\<rparr>
          in if \<not> capturing \<or> too_many_markers then Inr s1
             else
              (case RecordTimestamp command_buffer VK_PIPELINE_STAGE_BOTTOM_OF_PIPE_BIT s1 of
                 Inl e \<Rightarrow> Inl e
               | Inr (slot, s2) \<Rightarrow> attach_marker_slot command_buffer slot s2))"

definition PreSubmission :: "bool \<Rightarrow> nat \<Rightarrow> nat option" where
  "PreSubmission capturing now = (if \<not> capturing then None else Some now)"

text \<open>
  The slots a record references, in the order in which both \<open>DoPostSubmitQueue\<close> and
  \<open>ResetCommandBuffer\<close> gather them: begin slot, end slot, then the marker slots.
\<close>

definition option_list :: "'a option \<Rightarrow> 'a list" where
  "option_list x = (case x of None \<Rightarrow> [] | Some v \<Rightarrow> [v])"

definition gather_slots :: "CommandBufferState \<Rightarrow> nat list" where
  "gather_slots state =
     option_list (command_buffer_begin_slot_index state) @
     option_list (command_buffer_end_slot_index state) @
     concat (map (\<lambda>marker. option_list (slot_index marker)) (markers state))"

subsection \<open>DoPostSubmitQueue, not capturing\<close>

text \<open>
  The two nested loops of the first branch of \<open>DoPostSubmitQueue\<close>. The loop state is the
  local \<open>device\<close> (looked up with \<open>at\<close> while it is still \<open>VK_NULL_HANDLE\<close>), the local
  \<open>reset_slots\<close> and the map \<open>command_buffer_to_state_\<close>.
\<close>

fun reset_command_buffers ::
  "(VkCommandBuffer \<rightharpoonup> VkDevice) \<Rightarrow> VkCommandBuffer list \<Rightarrow>
   VkDevice \<times> nat list \<times> (VkCommandBuffer \<rightharpoonup> CommandBufferState) \<Rightarrow>
   error + (VkDevice \<times> nat list \<times> (VkCommandBuffer \<rightharpoonup> CommandBufferState))" where
  "reset_command_buffers to_device [] st = Inr st"
| "reset_command_buffers to_device (command_buffer # rest) (device, reset_slots, to_state) =
     (case (if device = VK_NULL_HANDLE
            then (case to_device command_buffer of None \<Rightarrow> Inl OutOfRange | Some d \<Rightarrow> Inr d)
            else Inr device) of
        Inl e \<Rightarrow> Inl e
      | Inr device' \<Rightarrow>
         (case to_state command_buffer of
            None \<Rightarrow> reset_command_buffers to_device rest (device', reset_slots, to_state)
          | Some state \<Rightarrow>
              reset_command_buffers to_device rest
                (device', reset_slots @ gather_slots state, to_state(command_buffer := None))))"

fun reset_submits ::
  "(VkCommandBuffer \<rightharpoonup> VkDevice) \<Rightarrow> VkCommandBuffer list list \<Rightarrow>
   VkDevice \<times> nat list \<times> (VkCommandBuffer \<rightharpoonup> CommandBufferState) \<Rightarrow>
   error + (VkDevice \<times> nat list \<times> (VkCommandBuffer \<rightharpoonup> CommandBufferState))" where
  "reset_submits to_device [] st = Inr st"
| "reset_submits to_device (submit_info # rest) st =
     (case reset_command_buffers to_device submit_info st of
        Inl e \<Rightarrow> Inl e
      | Inr st' \<Rightarrow> reset_submits to_device rest st')"

definition DoPostSubmitQueue_not_capturing ::
  "VkCommandBuffer list list \<Rightarrow> SubmissionTracker \<Rightarrow> error + SubmissionTracker" where
  "DoPostSubmitQueue_not_capturing submits s =
     (if command_buffer_to_state s = Map.empty then Inr s
      else
        (case reset_submits (command_buffer_to_device s) submits
                (VK_NULL_HANDLE, [], command_buffer_to_state s) of
           Inl e \<Rightarrow> Inl e
         | Inr (device, reset_slots, to_state) \<Rightarrow>
             let s1 = s\<lparr>command_buffer_to_state := to_state\<rparr>
             in if reset_slots \<noteq> []
                then (case ResetQuerySlots device reset_slots (timer_query_pool s1) of
                        Inl e \<Rightarrow> Inl e
                      | Inr p' \<Rightarrow> Inr (s1\<lparr>timer_query_pool := p'\<rparr>))
                else Inr s1))"

subsection \<open>DoPostSubmitQueue, capturing\<close>

text \<open>
  The loop over a record's markers. Its state is the queue's marker stack, the
  submission's \<open>num_begin_markers\<close> and its \<open>completed_markers\<close>. \<open>top\<close> and \<open>pop\<close> on an
  empty \<open>std::stack\<close> are undefined.
\<close>

fun walk_markers ::
  "SubmissionMetaInformation \<Rightarrow> Marker list \<Rightarrow>
   MarkerState list \<times> 32 word \<times> MarkerState list \<Rightarrow>
   error + (MarkerState list \<times> 32 word \<times> MarkerState list)" where
  "walk_markers meta [] st = Inr st"
| "walk_markers meta (marker # rest) (marker_stack, num_begin, completed) =
     (let submitted_marker =
            (case slot_index marker of
               None \<Rightarrow> None
             | Some i \<Rightarrow> Some \<lparr>submitted_meta_information = meta, submitted_slot_index = i\<rparr>)
      in case type marker of
           kDebugMarkerBegin \<Rightarrow>
             (let num_begin' = (if slot_index marker \<noteq> None then num_begin + 1 else num_begin)
              in case marker_text marker of
                   None \<Rightarrow> Inl CheckFailed
                 | Some text \<Rightarrow>
                    (case marker_color marker of
                       None \<Rightarrow> Inl CheckFailed
                     | Some color \<Rightarrow>
                         let marker_state =
                               \<lparr>begin_info = submitted_marker, end_info = None,
                                state_text = text, state_color = color,
                                depth = length marker_stack\<rparr>
                         in walk_markers meta rest
                              (marker_state # marker_stack, num_begin', completed)))
         | kDebugMarkerEnd \<Rightarrow>
             (case marker_stack of
                [] \<Rightarrow> Inl UndefinedBehaviour
              | marker_state # marker_stack' \<Rightarrow>
                  if slot_index marker \<noteq> None
                  then walk_markers meta rest
                         (marker_stack', num_begin,
                          completed @ [marker_state\<lparr>end_info := submitted_marker\<rparr>])
                  else walk_markers meta rest (marker_stack', num_begin, completed)))"

text \<open>
  The loop over the command buffers of one submit-info. Its state adds the map
  \<open>command_buffer_to_state_\<close> and the \<open>command_buffers\<close> of the submit-info being built.
  The end slot is read with \<open>optional::value\<close>.
\<close>

fun submit_command_buffers ::
  "SubmissionMetaInformation \<Rightarrow> VkCommandBuffer list \<Rightarrow>
   (VkCommandBuffer \<rightharpoonup> CommandBufferState) \<times>
     (MarkerState list \<times> 32 word \<times> MarkerState list) \<times> SubmittedCommandBuffer list \<Rightarrow>
   error + ((VkCommandBuffer \<rightharpoonup> CommandBufferState) \<times>
     (MarkerState list \<times> 32 word \<times> MarkerState list) \<times> SubmittedCommandBuffer list)" where
  "submit_command_buffers meta [] st = Inr st"
| "submit_command_buffers meta (command_buffer # rest) (to_state, mst, submitted) =
     (case to_state command_buffer of
        None \<Rightarrow> Inl CheckFailed
      | Some state \<Rightarrow>
         (case walk_markers meta (markers state) mst of
            Inl e \<Rightarrow> Inl e
          | Inr mst' \<Rightarrow>
             (case command_buffer_end_slot_index state of
                None \<Rightarrow> Inl BadOptionalAccess
              | Some end_slot \<Rightarrow>
                  submit_command_buffers meta rest
                    (to_state(command_buffer := None), mst',
                     submitted @
                       [\<lparr>submitted_begin_slot_index = command_buffer_begin_slot_index state,
                         submitted_end_slot_index = end_slot\<rparr>]))))"

fun submit_submits ::
  "SubmissionMetaInformation \<Rightarrow> VkCommandBuffer list list \<Rightarrow>
   (VkCommandBuffer \<rightharpoonup> CommandBufferState) \<times>
     (MarkerState list \<times> 32 word \<times> MarkerState list) \<times> SubmitInfo list \<Rightarrow>
   error + ((VkCommandBuffer \<rightharpoonup> CommandBufferState) \<times>
     (MarkerState list \<times> 32 word \<times> MarkerState list) \<times> SubmitInfo list)" where
  "submit_submits meta [] st = Inr st"
| "submit_submits meta (submit_info # rest) (to_state, mst, infos) =
     (case submit_command_buffers meta submit_info (to_state, mst, []) of
        Inl e \<Rightarrow> Inl e
      | Inr (to_state', mst', submitted) \<Rightarrow>
          submit_submits meta rest
            (to_state', mst', infos @ [\<lparr>command_buffers = submitted\<rparr>]))"

text \<open>\<open>queue_to_submissions_.at(queue).emplace_back\<close>, after the entry was created if missing.\<close>

fun append_submission ::
  "VkQueue \<Rightarrow> QueueSubmission \<Rightarrow> (VkQueue \<times> QueueSubmission list) list \<Rightarrow>
   (VkQueue \<times> QueueSubmission list) list" where
  "append_submission queue submission [] = [(queue, [submission])]"
| "append_submission queue submission ((q, submissions) # rest) =
     (if q = queue then (q, submissions @ [submission]) # rest
      else (q, submissions) # append_submission queue submission rest)"

definition DoPostSubmitQueue_capturing ::
  "int \<Rightarrow> nat \<Rightarrow> VkQueue \<Rightarrow> VkCommandBuffer list list \<Rightarrow> nat \<Rightarrow> SubmissionTracker \<Rightarrow>
   error + SubmissionTracker" where
  "DoPostSubmitQueue_capturing tid now queue submits pre_submit_timestamp s =
     (let marker_stack = (case queue_to_markers s queue of None \<Rightarrow> [] | Some st \<Rightarrow> st);
          meta = \<lparr>pre_submission_cpu_timestamp = pre_submit_timestamp,
                  post_submission_cpu_timestamp = now, thread_id = tid\<rparr>
      in case submit_submits meta submits
                (command_buffer_to_state s, (marker_stack, 0, []), []) of
           Inl e \<Rightarrow> Inl e
         | Inr (to_state, (marker_stack', num_begin, completed), infos) \<Rightarrow>
             let queue_submission =
                   \<lparr>meta_information = meta, submit_infos = infos,
                    completed_markers = completed, num_begin_markers = num_begin\<rparr>
             in Inr (s\<lparr>command_buffer_to_state := to_state,
                       queue_to_markers := (queue_to_markers s)(queue \<mapsto> marker_stack'),
                       queue_to_submissions :=
                         append_submission queue queue_submission (queue_to_submissions s)\<rparr>))"

definition DoPostSubmitQueue ::
  "bool \<Rightarrow> int \<Rightarrow> nat \<Rightarrow> VkQueue \<Rightarrow> VkCommandBuffer list list \<Rightarrow> nat option \<Rightarrow>
   SubmissionTracker \<Rightarrow> error + SubmissionTracker" where
  "DoPostSubmitQueue capturing tid now queue submits pre_submit_timestamp s =
     (case pre_submit_timestamp of
        None \<Rightarrow> DoPostSubmitQueue_not_capturing submits s
      | Some ts \<Rightarrow>
          if \<not> capturing then DoPostSubmitQueue_not_capturing submits s
          else DoPostSubmitQueue_capturing tid now queue submits ts s)"

subsection \<open>ResetCommandBuffer\<close>

definition ResetCommandBuffer :: "VkCommandBuffer \<Rightarrow> SubmissionTracker \<Rightarrow> error + SubmissionTracker"
  where
  "ResetCommandBuffer command_buffer s =
     (case command_buffer_to_state s command_buffer of
        None \<Rightarrow> Inr s
      | Some state \<Rightarrow>
         (case command_buffer_to_device s command_buffer of
            None \<Rightarrow> Inl OutOfRange
          | Some device \<Rightarrow>
             (case RollbackPendingQuerySlots device (gather_slots state) (timer_query_pool s) of
                Inl e \<Rightarrow> Inl e
              | Inr p' \<Rightarrow>
                  Inr (s\<lparr>timer_query_pool := p',
                         command_buffer_to_state :=
                           (command_buffer_to_state s)(command_buffer := None)\<rparr>))))"

subsection \<open>PullCompletedSubmissions\<close>

text \<open>
  The driver's answer to a readiness probe of a slot is the predicate \<open>ready\<close>
  (\<open>VK_SUCCESS\<close> or not). The inner loop advances a reverse iterator over the submit-infos
  (\<open>remaining\<close> is what the iterator has not passed yet) but reads
  \<open>submission.submit_infos.back()\<close> in every round. It returns \<open>erase_submission\<close>, whether
  the submission is pushed to \<open>completed_submissions\<close>, and the slot probed, if any.
\<close>

fun find_last_command_buffer ::
  "(nat \<Rightarrow> bool) \<Rightarrow> SubmitInfo list \<Rightarrow> SubmitInfo list \<Rightarrow> bool \<times> bool \<times> nat option" where
  "find_last_command_buffer ready all_infos [] = (True, False, None)"
| "find_last_command_buffer ready all_infos (it # remaining) =
     (let submit_info = last all_infos
      in if command_buffers submit_info = []
         then find_last_command_buffer ready all_infos remaining
         else
           let last_command_buffer = last (command_buffers submit_info);
               check_slot_index_end = submitted_end_slot_index last_command_buffer
           in if ready check_slot_index_end
              then (True, True, Some check_slot_index_end)
              else (False, False, Some check_slot_index_end))"

text \<open>
  The loop over one queue's submissions. It returns the submissions left in the queue,
  the completed ones and the slots probed, each in order.
\<close>

fun pull_queue ::
  "(nat \<Rightarrow> bool) \<Rightarrow> QueueSubmission list \<Rightarrow>
   QueueSubmission list \<times> QueueSubmission list \<times> nat list" where
  "pull_queue ready [] = ([], [], [])"
| "pull_queue ready (submission # rest) =
     (let (kept, completed, probed) = pull_queue ready rest
      in if submit_infos submission = [] then (kept, completed, probed)
         else
           (case find_last_command_buffer ready (submit_infos submission)
                   (rev (submit_infos submission)) of
              (erase_submission, push, probe) \<Rightarrow>
                (if erase_submission then kept else submission # kept,
                 if push then submission # completed else completed,
                 option_list probe @ probed)))"

fun pull_queues ::
  "(nat \<Rightarrow> bool) \<Rightarrow> (VkQueue \<times> QueueSubmission list) list \<Rightarrow>
   (VkQueue \<times> QueueSubmission list) list \<times> QueueSubmission list \<times> nat list" where
  "pull_queues ready [] = ([], [], [])"
| "pull_queues ready ((queue, queue_submissions) # rest) =
     (let (kept, completed, probed) = pull_queue ready queue_submissions;
          (rest', completed', probed') = pull_queues ready rest
      in ((queue, kept) # rest', completed @ completed', probed @ probed'))"

definition PullCompletedSubmissions ::
  "(nat \<Rightarrow> bool) \<Rightarrow> VkDevice \<Rightarrow> VkQueryPool \<Rightarrow> SubmissionTracker \<Rightarrow>
   QueueSubmission list \<times> SubmissionTracker" where
  "PullCompletedSubmissions ready device query_pool s =
     (let (queues', completed_submissions, probed) = pull_queues ready (queue_to_submissions s);
          p = timer_query_pool s
      in (completed_submissions,
          s\<lparr>queue_to_submissions := queues',
            timer_query_pool :=
              p\<lparr>dispatch_calls := dispatch_calls p @
                   map (GetQueryPoolResults device query_pool) probed\<rparr>\<rparr>))"

subsection \<open>Sequences of hook calls\<close>

text \<open>
  A call of a hook with its arguments, as the interception layer issues it, and the run
  of a sequence of calls from a tracker state; the first error ends the run.
\<close>

datatype HookCall =
    Track VkDevice VkCommandPool "VkCommandBuffer list"
  | BeginRecording bool VkCommandBuffer
  | EndRecording bool VkCommandBuffer
  | BeginMarker bool VkCommandBuffer string Color
  | EndMarker bool VkCommandBuffer
  | PostSubmit bool int nat VkQueue "VkCommandBuffer list list" "nat option"
  | ResetBuffer VkCommandBuffer

fun call_hook :: "HookCall \<Rightarrow> SubmissionTracker \<Rightarrow> error + SubmissionTracker" where
  "call_hook (Track device pool cbs) s = TrackCommandBuffers device pool cbs s"
| "call_hook (BeginRecording capturing cb) s = MarkCommandBufferBegin capturing cb s"
| "call_hook (EndRecording capturing cb) s = MarkCommandBufferEnd capturing cb s"
| "call_hook (BeginMarker capturing cb text color) s =
     MarkDebugMarkerBegin capturing cb text color s"
| "call_hook (EndMarker capturing cb) s = MarkDebugMarkerEnd capturing cb s"
| "call_hook (PostSubmit capturing tid now queue submits pre_ts) s =
     DoPostSubmitQueue capturing tid now queue submits pre_ts s"
| "call_hook (ResetBuffer cb) s = ResetCommandBuffer cb s"

fun run_hooks :: "HookCall list \<Rightarrow> SubmissionTracker \<Rightarrow> error + SubmissionTracker" where
  "run_hooks [] s = Inr s"
| "run_hooks (h # rest) s =
     (case call_hook h s of Inl e \<Rightarrow> Inl e | Inr s' \<Rightarrow> run_hooks rest s')"

section \<open>Notions used in the statements\<close>

text \<open>
  The slots referenced by the records of the command buffers \<open>cbs\<close>.
\<close>

definition referenced_slots ::
  "(VkCommandBuffer \<rightharpoonup> CommandBufferState) \<Rightarrow> VkCommandBuffer list \<Rightarrow> nat set" where
  "referenced_slots to_state cbs =
     (\<Union>cb\<in>set cbs. case to_state cb of None \<Rightarrow> {} | Some state \<Rightarrow> set (gather_slots state))"


text \<open>
  The slot whose readiness decides a submission: the end slot of the last command buffer
  of the last submit-info that holds at least one command buffer; none when the
  submission holds no command buffer at all.
\<close>

definition probe_slot :: "QueueSubmission \<Rightarrow> nat option" where
  "probe_slot submission =
     (let holding = filter (\<lambda>submit_info. command_buffers submit_info \<noteq> [])
                      (submit_infos submission)
      in if holding = [] then None
         else Some (submitted_end_slot_index (last (command_buffers (last holding)))))"

text \<open>
  A submission has no trailing empty submit-info: it holds no command buffer at all, or
  its last submit-info holds one.
\<close>

definition no_trailing_empty_info :: "QueueSubmission \<Rightarrow> bool" where
  "no_trailing_empty_info submission \<longleftrightarrow>
     probe_slot submission = None \<or>
     command_buffers (last (submit_infos submission)) \<noteq> []"


definition in_flight ::
  "VkQueue \<Rightarrow> (VkQueue \<times> QueueSubmission list) list \<Rightarrow> QueueSubmission list" where
  "in_flight queue queues = (case map_of queues queue of None \<Rightarrow> [] | Some submissions \<Rightarrow> submissions)"




section \<open>Sample states\<close>

text \<open>
  A pool of two slots with device \<open>1\<close> initialized (driver pool handle \<open>9\<close>), and the same
  pool after one slot has been acquired.
\<close>

definition example_pool :: TimerQueryPool where
  "example_pool =
     \<lparr>num_timer_query_slots = 2, device_to_query_pool = [1 \<mapsto> 9],
      device_to_query_slots = [1 \<mapsto> [kReadyForQueryIssue, kReadyForQueryIssue]],
      device_to_free_slots = [1 \<mapsto> [0, 1]],
      dispatch_calls = [ResetQueryPoolEXT 1 9 0 2]\<rparr>"

definition example_pool_acquired :: TimerQueryPool where
  "example_pool_acquired =
     \<lparr>num_timer_query_slots = 2, device_to_query_pool = [1 \<mapsto> 9],
      device_to_query_slots = [1 \<mapsto> [kReadyForQueryIssue, kQueryPendingOnGpu]],
      device_to_free_slots = [1 \<mapsto> [0]],
      dispatch_calls = [ResetQueryPoolEXT 1 9 0 2]\<rparr>"


text \<open>
  A tracker without depth filter over a pool of four slots, with device \<open>1\<close> initialized,
  before any command buffer is tracked; and the same with depth filter \<open>2\<close>.
\<close>

definition pool4 :: TimerQueryPool where
  "pool4 =
     \<lparr>num_timer_query_slots = 4, device_to_query_pool = [1 \<mapsto> 9],
      device_to_query_slots = [1 \<mapsto> replicate 4 kReadyForQueryIssue],
      device_to_free_slots = [1 \<mapsto> [0, 1, 2, 3]],
      dispatch_calls = []\<rparr>"

definition tracker0 :: SubmissionTracker where
  "tracker0 = new_SubmissionTracker 0 pool4"

definition red_color :: Color where
  "red_color = \<lparr>red = 1, green = 0, blue = 0, alpha = 1\<rparr>"

text \<open>Two driver answers to readiness probes: only slot \<open>2\<close> is ready; every slot is ready.\<close>

definition only_slot_2_ready :: "nat \<Rightarrow> bool" where
  "only_slot_2_ready slot \<longleftrightarrow> slot = 2"

definition every_slot_ready :: "nat \<Rightarrow> bool" where
  "every_slot_ready slot \<longleftrightarrow> True"

text \<open>
  A submission of one submit-info holding one command buffer whose end slot is \<open>i\<close>; a
  submit-info without command buffers; an open marker whose begin carried slot \<open>2\<close>; an
  end entry without slot and one with slot \<open>i\<close>.
\<close>

definition meta0 :: SubmissionMetaInformation where
  "meta0 = \<lparr>pre_submission_cpu_timestamp = 100, post_submission_cpu_timestamp = 101,
            thread_id = 5\<rparr>"

definition info_with_end_slot :: "nat \<Rightarrow> SubmitInfo" where
  "info_with_end_slot i =
     \<lparr>command_buffers = [\<lparr>submitted_begin_slot_index = None, submitted_end_slot_index = i\<rparr>]\<rparr>"

definition empty_info :: SubmitInfo where
  "empty_info = \<lparr>command_buffers = []\<rparr>"

definition submission_of :: "SubmitInfo list \<Rightarrow> QueueSubmission" where
  "submission_of infos =
     \<lparr>meta_information = meta0, submit_infos = infos, completed_markers = [],
      num_begin_markers = 0\<rparr>"



text \<open>
  Command buffer \<open>7\<close> tracked on device \<open>1\<close> with a fresh record, without depth filter.
\<close>

definition recording0 :: SubmissionTracker where
  "recording0 =
     tracker0\<lparr>pool_to_command_buffers := [1 \<mapsto> {7}], command_buffer_to_device := [7 \<mapsto> 1],
              command_buffer_to_state := [7 \<mapsto> empty_CommandBufferState]\<rparr>"

text \<open>
  With depth filter \<open>2\<close>: command buffer \<open>7\<close> after \<open>begin-recording\<close> and two begin
  markers while capturing (slots \<open>3\<close>, \<open>2\<close> and \<open>1\<close> rented), and after a third begin
  marker, which is filtered.
\<close>

definition state2 :: CommandBufferState where
  "state2 =
     \<lparr>command_buffer_begin_slot_index = Some 3, command_buffer_end_slot_index = None,
      markers =
        [\<lparr>type = kDebugMarkerBegin, slot_index = Some 2,
          marker_text = Some ''A'', marker_color = Some red_color\<rparr>,
         \<lparr>type = kDebugMarkerBegin, slot_index = Some 1,
          marker_text = Some ''B'', marker_color = Some red_color\<rparr>],
      local_marker_stack_size = 2\<rparr>"

definition recording2 :: SubmissionTracker where
  "recording2 =
     \<lparr>max_local_marker_depth_per_command_buffer = 2,
      pool_to_command_buffers = [1 \<mapsto> {7}], command_buffer_to_device = [7 \<mapsto> 1],
      command_buffer_to_state = [7 \<mapsto> state2], queue_to_submissions = [],
      queue_to_markers = Map.empty,
      timer_query_pool =
        pool4\<lparr>device_to_query_slots :=
                [1 \<mapsto> [kReadyForQueryIssue, kQueryPendingOnGpu, kQueryPendingOnGpu,
                       kQueryPendingOnGpu]],
              device_to_free_slots := [1 \<mapsto> [0]],
              dispatch_calls :=
                [CmdWriteTimestamp 7 VK_PIPELINE_STAGE_TOP_OF_PIPE_BIT 9 3,
                 CmdWriteTimestamp 7 VK_PIPELINE_STAGE_TOP_OF_PIPE_BIT 9 2,
                 CmdWriteTimestamp 7 VK_PIPELINE_STAGE_TOP_OF_PIPE_BIT 9 1]\<rparr>\<rparr>"

definition state3 :: CommandBufferState where
  "state3 =
     state2\<lparr>markers := markers state2 @
               [\<lparr>type = kDebugMarkerBegin, slot_index = None,
                 marker_text = Some ''C'', marker_color = Some red_color\<rparr>],
             local_marker_stack_size := local_marker_stack_size state2 + 1\<rparr>"

definition recording3 :: SubmissionTracker where
  "recording3 =
     recording2\<lparr>command_buffer_to_state := (command_buffer_to_state recording2)(7 \<mapsto> state3)\<rparr>"

text \<open>
  Command buffer \<open>7\<close> after \<open>track\<close> and \<open>begin-recording\<close> while capturing (slot \<open>3\<close> rented
  and written), and after \<open>end-recording\<close> while capturing as well (slot \<open>2\<close>).
\<close>

definition begun7 :: SubmissionTracker where
  "begun7 =
     recording0\<lparr>command_buffer_to_state :=
                  [7 \<mapsto> empty_CommandBufferState\<lparr>command_buffer_begin_slot_index := Some 3\<rparr>],
                timer_query_pool :=
                  pool4\<lparr>device_to_query_slots :=
                          [1 \<mapsto> [kReadyForQueryIssue, kReadyForQueryIssue, kReadyForQueryIssue,
                                 kQueryPendingOnGpu]],
                        device_to_free_slots := [1 \<mapsto> [0, 1, 2]],
                        dispatch_calls :=
                          [CmdWriteTimestamp 7 VK_PIPELINE_STAGE_TOP_OF_PIPE_BIT 9 3]\<rparr>\<rparr>"

definition ended7 :: SubmissionTracker where
  "ended7 =
     recording0\<lparr>command_buffer_to_state :=
                  [7 \<mapsto> empty_CommandBufferState\<lparr>command_buffer_begin_slot_index := Some 3,
                                                 command_buffer_end_slot_index := Some 2\<rparr>],
                timer_query_pool :=
                  pool4\<lparr>device_to_query_slots :=
                          [1 \<mapsto> [kReadyForQueryIssue, kReadyForQueryIssue, kQueryPendingOnGpu,
                                 kQueryPendingOnGpu]],
                        device_to_free_slots := [1 \<mapsto> [0, 1]],
                        dispatch_calls :=
                          [CmdWriteTimestamp 7 VK_PIPELINE_STAGE_TOP_OF_PIPE_BIT 9 3,
                           CmdWriteTimestamp 7 VK_PIPELINE_STAGE_BOTTOM_OF_PIPE_BIT 9 2]\<rparr>\<rparr>"

text \<open>
  A pool of eight slots, and a run in which command buffer \<open>8\<close> is recorded with a begin
  marker and submitted on queue \<open>3\<close> while capturing (the marker stays open on the queue),
  and command buffer \<open>7\<close> is then recorded with a begin marker and an end marker.
\<close>

definition pool8 :: TimerQueryPool where
  "pool8 =
     \<lparr>num_timer_query_slots = 8, device_to_query_pool = [1 \<mapsto> 9],
      device_to_query_slots = [1 \<mapsto> replicate 8 kReadyForQueryIssue],
      device_to_free_slots = [1 \<mapsto> [0, 1, 2, 3, 4, 5, 6, 7]],
      dispatch_calls = []\<rparr>"

definition tracker8 :: SubmissionTracker where
  "tracker8 = new_SubmissionTracker 0 pool8"

definition marked_run :: "HookCall list" where
  "marked_run =
     [Track 1 1 [7, 8],
      BeginRecording True 8, BeginMarker True 8 ''A'' red_color, EndRecording True 8,
      PostSubmit True 5 101 3 [[8]] (Some 100),
      BeginRecording True 7, BeginMarker True 7 ''B'' red_color, EndMarker True 7,
      EndRecording True 7]"

definition state7 :: CommandBufferState where
  "state7 =
     \<lparr>command_buffer_begin_slot_index = Some 4, command_buffer_end_slot_index = Some 1,
      markers =
        [\<lparr>type = kDebugMarkerBegin, slot_index = Some 3,
          marker_text = Some ''B'', marker_color = Some red_color\<rparr>,
         \<lparr>type = kDebugMarkerEnd, slot_index = Some 2,
          marker_text = None, marker_color = None\<rparr>],
      local_marker_stack_size = 0\<rparr>"

definition open_A :: MarkerState where
  "open_A =
     \<lparr>begin_info = Some \<lparr>submitted_meta_information = meta0, submitted_slot_index = 6\<rparr>,
      end_info = None, state_text = ''A'', state_color = red_color, depth = 0\<rparr>"

text \<open>
  Two submissions in flight on queue \<open>3\<close>: command buffer \<open>7\<close> (slots \<open>3\<close> and \<open>2\<close>) and then
  command buffer \<open>8\<close> (slots \<open>1\<close> and \<open>0\<close>); and a driver for which only slot \<open>0\<close> is ready.
\<close>

definition two_submits_run :: "HookCall list" where
  "two_submits_run =
     [Track 1 1 [7, 8],
      BeginRecording True 7, EndRecording True 7, PostSubmit True 5 101 3 [[7]] (Some 100),
      BeginRecording True 8, EndRecording True 8, PostSubmit True 5 201 3 [[8]] (Some 200)]"

definition first_submission :: QueueSubmission where
  "first_submission =
     \<lparr>meta_information = meta0,
      submit_infos = [\<lparr>command_buffers =
        [\<lparr>submitted_begin_slot_index = Some 3, submitted_end_slot_index = 2\<rparr>]\<rparr>],
      completed_markers = [], num_begin_markers = 0\<rparr>"

definition second_submission :: QueueSubmission where
  "second_submission =
     \<lparr>meta_information =
        \<lparr>pre_submission_cpu_timestamp = 200, post_submission_cpu_timestamp = 201,
         thread_id = 5\<rparr>,
      submit_infos = [\<lparr>command_buffers =
        [\<lparr>submitted_begin_slot_index = Some 1, submitted_end_slot_index = 0\<rparr>]\<rparr>],
      completed_markers = [], num_begin_markers = 0\<rparr>"

definition only_slot_0_ready :: "nat \<Rightarrow> bool" where
  "only_slot_0_ready slot \<longleftrightarrow> slot = 0"




section \<open>Properties of the slot pool\<close>

lemma ready_pending_count: "ready_count slot_states + pending_count slot_states = length slot_states"
proof (induction slot_states)
  case Nil
  show ?case by (simp add: ready_count_def pending_count_def)
next
  case (Cons s rest)
  then show ?case by (cases s) (simp_all add: ready_count_def pending_count_def)
qed

lemma ready_count_indices:
  "ready_count slot_states =
     length (filter (\<lambda>i. slot_states ! i = kReadyForQueryIssue) [0..<length slot_states])"
proof -
  have "filter (\<lambda>s. s = kReadyForQueryIssue) slot_states =
        filter (\<lambda>s. s = kReadyForQueryIssue) (map (\<lambda>i. slot_states ! i) [0..<length slot_states])"
    by (simp add: map_nth)
  then show ?thesis
    unfolding ready_count_def
    by (metis (mono_tags, lifting) comp_apply filter_cong filter_map length_map)
qed

lemma slots_inv_free_length:
  assumes "slots_inv n slot_states free_slots"
  shows "length free_slots = ready_count slot_states"
proof -
  let ?ready = "filter (\<lambda>i. slot_states ! i = kReadyForQueryIssue) [0..<n]"
  from assms have len: "length slot_states = n" and d: "distinct free_slots"
    and s: "set free_slots = set ?ready"
    by (simp_all add: slots_inv_def)
  have "distinct ?ready" by simp
  with d s have "length free_slots = length ?ready"
    by (metis distinct_card)
  with len show ?thesis by (simp add: ready_count_indices)
qed

lemma slots_inv_acquire:
  assumes inv: "slots_inv n slot_states free_slots" and ne: "free_slots \<noteq> []"
  shows "last free_slots < n"
    and "slot_states ! last free_slots = kReadyForQueryIssue"
    and "slots_inv n (slot_states[last free_slots := kQueryPendingOnGpu]) (butlast free_slots)"
proof -
  let ?i = "last free_slots"
  from inv have len: "length slot_states = n" and d: "distinct free_slots"
    and s: "set free_slots = {i. i < n \<and> slot_states ! i = kReadyForQueryIssue}"
    by (auto simp: slots_inv_def)
  from ne have mem: "?i \<in> set free_slots" by simp
  with s show lt: "?i < n" and rdy: "slot_states ! ?i = kReadyForQueryIssue" by auto
  from ne have split: "free_slots = butlast free_slots @ [?i]" by simp
  with d have notin: "?i \<notin> set (butlast free_slots)"
    by (metis distinct_append distinct.simps(2) disjoint_iff list.set_intros(1))
  from split have setb: "set free_slots = insert ?i (set (butlast free_slots))"
    by (metis Un_insert_right append_Nil2 list.simps(15) set_append)
  have "set (butlast free_slots) =
        {i. i < n \<and> slot_states[?i := kQueryPendingOnGpu] ! i = kReadyForQueryIssue}"
  proof (rule set_eqI)
    fix j
    show "j \<in> set (butlast free_slots) \<longleftrightarrow>
          j \<in> {i. i < n \<and> slot_states[?i := kQueryPendingOnGpu] ! i = kReadyForQueryIssue}"
    proof (cases "j = ?i")
      case True
      with notin lt len show ?thesis by simp
    next
      case False
      with setb s have "j \<in> set (butlast free_slots) \<longleftrightarrow>
                        j < n \<and> slot_states ! j = kReadyForQueryIssue"
        by auto
      with False show ?thesis by simp
    qed
  qed
  moreover from d have "distinct (butlast free_slots)" by (rule distinct_butlast)
  ultimately show "slots_inv n (slot_states[?i := kQueryPendingOnGpu]) (butlast free_slots)"
    using len by (auto simp: slots_inv_def)
qed

lemma slots_inv_release:
  assumes inv: "slots_inv n slot_states free_slots" and lt: "i < n"
    and pend: "slot_states ! i = kQueryPendingOnGpu"
  shows "slots_inv n (slot_states[i := kReadyForQueryIssue]) (free_slots @ [i])"
proof -
  from inv have len: "length slot_states = n" and d: "distinct free_slots"
    and s: "set free_slots = {j. j < n \<and> slot_states ! j = kReadyForQueryIssue}"
    by (auto simp: slots_inv_def)
  from s pend have "i \<notin> set free_slots" by simp
  with d have "distinct (free_slots @ [i])" by simp
  moreover have "set (free_slots @ [i]) =
     {j. j < n \<and> slot_states[i := kReadyForQueryIssue] ! j = kReadyForQueryIssue}"
    using s lt len by (auto simp: nth_list_update)
  ultimately show ?thesis using len by (auto simp: slots_inv_def)
qed

lemma ResetQuerySlots_loop_inv:
  "ResetQuerySlots_loop n device query_pool rollback_only slot_indices
     (slot_states, free_slots, calls) = Inr (slot_states', free_slots', calls') \<Longrightarrow>
   slots_inv n slot_states free_slots \<Longrightarrow> slots_inv n slot_states' free_slots'"
proof (induction slot_indices arbitrary: slot_states free_slots calls)
  case Nil
  then show ?case by simp
next
  case (Cons i rest)
  from Cons.prems(1) have lt: "i < n" and pend: "slot_states ! i = kQueryPendingOnGpu"
    by (auto split: if_splits)
  from Cons.prems(2) lt pend
  have step: "slots_inv n (slot_states[i := kReadyForQueryIssue]) (free_slots @ [i])"
    by (rule slots_inv_release)
  from Cons.prems(1) lt pend obtain calls2 where
    "ResetQuerySlots_loop n device query_pool rollback_only rest
       (slot_states[i := kReadyForQueryIssue], free_slots @ [i], calls2) =
     Inr (slot_states', free_slots', calls')"
    by (auto simp: Let_def split: if_splits option.splits)
  from Cons.IH [OF this step] show ?case .
qed

lemma pool_inv_new: "pool_inv (new_TimerQueryPool n)"
  by (simp add: pool_inv_def new_TimerQueryPool_def)

lemma slots_inv_initial: "slots_inv n (replicate n kReadyForQueryIssue) [0..<n]"
  by (auto simp: slots_inv_def)

lemma InitializeTimerQueryPool_inv:
  assumes "pool_inv p" and "InitializeTimerQueryPool device created p = Inr p'"
  shows "pool_inv p'"
  using assms
  by (auto simp: InitializeTimerQueryPool_def pool_inv_def slots_inv_initial
           split: option.splits if_splits)

lemma NextReadyQuerySlot_inv:
  assumes inv: "pool_inv p" and op: "NextReadyQuerySlot device p = Inr (r, p')"
  shows "pool_inv p'"
proof (cases r)
  case None
  with op have "p' = p"
    by (auto simp: NextReadyQuerySlot_def Let_def split: option.splits if_splits)
  with inv show ?thesis by simp
next
  case (Some i)
  from op Some obtain slot_states free_slots where
    f: "device_to_free_slots p device = Some free_slots" and
    q: "device_to_query_slots p device = Some slot_states" and
    ne: "free_slots \<noteq> []" and i: "i = last free_slots" and
    p': "p' = p\<lparr>device_to_free_slots := (device_to_free_slots p)(device \<mapsto> butlast free_slots),
                device_to_query_slots := (device_to_query_slots p)
                  (device \<mapsto> slot_states[i := kQueryPendingOnGpu])\<rparr>"
    by (auto simp: NextReadyQuerySlot_def Let_def split: option.splits if_splits)
  from inv f q have "slots_inv (num_timer_query_slots p) slot_states free_slots"
    by (simp add: pool_inv_def)
  from slots_inv_acquire(3) [OF this ne] i
  have new: "slots_inv (num_timer_query_slots p) (slot_states[i := kQueryPendingOnGpu])
               (butlast free_slots)"
    by simp
  from inv q have "device_to_query_pool p device \<noteq> None"
    unfolding pool_inv_def by (metis option.distinct(1))
  with inv new show ?thesis unfolding p' pool_inv_def
    by (auto split: if_splits)
qed

lemma ResetQuerySlotsInternal_inv:
  assumes inv: "pool_inv p" and op: "ResetQuerySlotsInternal device slot_indices rollback_only p = Inr p'"
  shows "pool_inv p'"
proof (cases "slot_indices = []")
  case True
  with op inv show ?thesis by (simp add: ResetQuerySlotsInternal_def)
next
  case False
  with op obtain slot_states free_slots slot_states' free_slots' calls' where
    q: "device_to_query_slots p device = Some slot_states" and
    f: "device_to_free_slots p device = Some free_slots" and
    loop: "ResetQuerySlots_loop (num_timer_query_slots p) device (device_to_query_pool p device)
             rollback_only slot_indices (slot_states, free_slots, dispatch_calls p) =
           Inr (slot_states', free_slots', calls')" and
    p': "p' = p\<lparr>device_to_query_slots := (device_to_query_slots p)(device \<mapsto> slot_states'),
                device_to_free_slots := (device_to_free_slots p)(device \<mapsto> free_slots'),
                dispatch_calls := calls'\<rparr>"
    by (auto simp: ResetQuerySlotsInternal_def split: option.splits sum.splits)
  from inv f q have "slots_inv (num_timer_query_slots p) slot_states free_slots"
    by (simp add: pool_inv_def)
  with loop have new: "slots_inv (num_timer_query_slots p) slot_states' free_slots'"
    by (rule ResetQuerySlots_loop_inv)
  from inv q have "device_to_query_pool p device \<noteq> None"
    unfolding pool_inv_def by (metis option.distinct(1))
  with inv new show ?thesis unfolding p' pool_inv_def
    by (auto split: if_splits)
qed

lemma NextReadyQuerySlot_total:
  assumes inv: "pool_inv p" and d: "device_to_query_pool p device \<noteq> None"
  shows "\<exists>r p'. NextReadyQuerySlot device p = Inr (r, p')"
proof -
  from inv d obtain slot_states free_slots where
    q: "device_to_query_slots p device = Some slot_states" and
    f: "device_to_free_slots p device = Some free_slots"
    unfolding pool_inv_def by (metis not_Some_eq)
  from inv f q have si: "slots_inv (num_timer_query_slots p) slot_states free_slots"
    by (simp add: pool_inv_def)
  show ?thesis
  proof (cases "free_slots = []")
    case True
    with q f show ?thesis by (simp add: NextReadyQuerySlot_def)
  next
    case False
    from slots_inv_acquire(1,2) [OF si False] si
    have "last free_slots < length slot_states"
      "slot_states ! last free_slots = kReadyForQueryIssue"
      by (simp_all add: slots_inv_def)
    with q f False show ?thesis by (simp add: NextReadyQuerySlot_def Let_def)
  qed
qed

lemma NextReadyQuerySlot_effect:
  assumes ok: "NextReadyQuerySlot device p = Inr (Some slot, p1)"
  shows "\<exists>slot_states free_slots.
           device_to_query_slots p device = Some slot_states \<and>
           device_to_free_slots p device = Some (free_slots @ [slot]) \<and>
           slot < length slot_states \<and>
           slot_states ! slot = kReadyForQueryIssue \<and>
           p1 = p\<lparr>device_to_free_slots := (device_to_free_slots p)(device \<mapsto> free_slots),
                  device_to_query_slots := (device_to_query_slots p)
                    (device \<mapsto> slot_states[slot := kQueryPendingOnGpu])\<rparr> \<and>
           (pool_inv p \<longrightarrow> slot \<notin> set free_slots)"
proof -
  from ok obtain slot_states fs where
    q: "device_to_query_slots p device = Some slot_states" and
    f: "device_to_free_slots p device = Some fs" and
    ne: "fs \<noteq> []" and slot: "slot = last fs" and
    lt: "slot < length slot_states" and
    rdy: "slot_states ! slot = kReadyForQueryIssue" and
    p1: "p1 = p\<lparr>device_to_free_slots := (device_to_free_slots p)(device \<mapsto> butlast fs),
                device_to_query_slots := (device_to_query_slots p)
                  (device \<mapsto> slot_states[slot := kQueryPendingOnGpu])\<rparr>"
    by (auto simp: NextReadyQuerySlot_def Let_def split: option.splits if_splits)
  from ne slot have fs: "fs = butlast fs @ [slot]" by simp
  have off: "pool_inv p \<longrightarrow> slot \<notin> set (butlast fs)"
  proof
    assume "pool_inv p"
    with q f have "slots_inv (num_timer_query_slots p) slot_states fs"
      by (simp add: pool_inv_def)
    then have "distinct fs" by (simp add: slots_inv_def)
    with fs show "slot \<notin> set (butlast fs)"
      by (metis distinct_append distinct.simps(2) disjoint_iff list.set_intros(1))
  qed
  from f fs have f': "device_to_free_slots p device = Some (butlast fs @ [slot])" by simp
  from q f' lt rdy p1 off show ?thesis by blast
qed

lemma ResetQuerySlots_loop_effect:
  "ResetQuerySlots_loop n device query_pool rollback_only slot_indices
     (slot_states, free_slots, calls) = Inr (slot_states', free_slots', calls') \<Longrightarrow>
   free_slots' = free_slots @ slot_indices \<and>
   length slot_states' = length slot_states \<and>
   (\<forall>i\<in>set slot_indices. i < n \<and> i < length slot_states \<and>
        slot_states' ! i = kReadyForQueryIssue) \<and>
   (\<forall>i. i \<notin> set slot_indices \<longrightarrow> slot_states' ! i = slot_states ! i) \<and>
   (rollback_only \<longrightarrow> calls' = calls) \<and>
   (\<not> rollback_only \<longrightarrow> slot_indices \<noteq> [] \<longrightarrow>
      (\<exists>qp. query_pool = Some qp \<and>
         calls' = calls @ map (\<lambda>i. ResetQueryPoolEXT device qp i 1) slot_indices))"
proof (induction slot_indices arbitrary: slot_states free_slots calls)
  case Nil
  then show ?case by simp
next
  case (Cons i rest)
  from Cons.prems have lt: "i < n" and len: "i < length slot_states"
    and pend: "slot_states ! i = kQueryPendingOnGpu"
    by (auto split: if_splits)
  from Cons.prems lt len pend obtain calls2 where
    rec: "ResetQuerySlots_loop n device query_pool rollback_only rest
       (slot_states[i := kReadyForQueryIssue], free_slots @ [i], calls2) =
     Inr (slot_states', free_slots', calls')" and
    c2: "rollback_only \<longrightarrow> calls2 = calls" and
    c3: "\<not> rollback_only \<longrightarrow>
          (\<exists>qp. query_pool = Some qp \<and> calls2 = calls @ [ResetQueryPoolEXT device qp i 1])"
    by (auto simp: Let_def split: if_splits option.splits)
  note IH = Cons.IH [OF rec]
  have ready_i: "slot_states' ! i = kReadyForQueryIssue"
  proof (cases "i \<in> set rest")
    case True
    with IH show ?thesis by blast
  next
    case False
    with IH have "slot_states' ! i = slot_states[i := kReadyForQueryIssue] ! i" by blast
    with len show ?thesis by simp
  qed
  from IH have "free_slots' = free_slots @ i # rest" by simp
  moreover from IH have "length slot_states' = length slot_states" by simp
  moreover from IH ready_i lt len
  have "\<forall>j\<in>set (i # rest). j < n \<and> j < length slot_states \<and>
          slot_states' ! j = kReadyForQueryIssue"
    by auto
  moreover from IH have "\<forall>j. j \<notin> set (i # rest) \<longrightarrow> slot_states' ! j = slot_states ! j"
    by auto
  moreover from IH c2 have "rollback_only \<longrightarrow> calls' = calls" by simp
  moreover have "\<not> rollback_only \<longrightarrow> i # rest \<noteq> [] \<longrightarrow>
      (\<exists>qp. query_pool = Some qp \<and>
         calls' = calls @ map (\<lambda>i. ResetQueryPoolEXT device qp i 1) (i # rest))"
  proof (intro impI)
    assume nr: "\<not> rollback_only"
    with c3 obtain qp where qp: "query_pool = Some qp"
      and calls2: "calls2 = calls @ [ResetQueryPoolEXT device qp i 1]" by blast
    show "\<exists>qp. query_pool = Some qp \<and>
         calls' = calls @ map (\<lambda>i. ResetQueryPoolEXT device qp i 1) (i # rest)"
    proof (cases "rest = []")
      case True
      with rec calls2 qp show ?thesis by simp
    next
      case False
      with IH nr qp calls2 show ?thesis by auto
    qed
  qed
  ultimately show ?case by blast
qed

lemma ResetQuerySlots_loop_pending:
  "ResetQuerySlots_loop n device query_pool rollback_only slot_indices
     (slot_states, free_slots, calls) = Inr st' \<Longrightarrow>
   distinct slot_indices \<and> (\<forall>i\<in>set slot_indices. slot_states ! i = kQueryPendingOnGpu)"
proof (induction slot_indices arbitrary: slot_states free_slots calls)
  case Nil
  then show ?case by simp
next
  case (Cons i rest)
  from Cons.prems have lt: "i < n" and len: "i < length slot_states"
    and pend: "slot_states ! i = kQueryPendingOnGpu"
    by (auto split: if_splits)
  from Cons.prems lt len pend obtain calls2 where
    rec: "ResetQuerySlots_loop n device query_pool rollback_only rest
       (slot_states[i := kReadyForQueryIssue], free_slots @ [i], calls2) = Inr st'"
    by (auto simp: Let_def split: if_splits option.splits)
  note IH = Cons.IH [OF rec]
  have "i \<notin> set rest"
  proof
    assume "i \<in> set rest"
    with IH have "slot_states[i := kReadyForQueryIssue] ! i = kQueryPendingOnGpu" by blast
    with len show False by simp
  qed
  moreover have "\<forall>j\<in>set rest. slot_states ! j = kQueryPendingOnGpu"
  proof
    fix j assume j: "j \<in> set rest"
    with IH have "slot_states[i := kReadyForQueryIssue] ! j = kQueryPendingOnGpu" by blast
    moreover from j \<open>i \<notin> set rest\<close> have "j \<noteq> i" by auto
    ultimately show "slot_states ! j = kQueryPendingOnGpu" by simp
  qed
  ultimately show ?case using IH pend by simp
qed

lemma ResetQuerySlots_loop_rollback_same:
  "ResetQuerySlots_loop n device query_pool True slot_indices
     (slot_states, free_slots, calls) = Inr (slot_states', free_slots', calls') \<Longrightarrow>
   ResetQuerySlots_loop n device (Some qp) False slot_indices
     (slot_states, free_slots, calls2) =
   Inr (slot_states', free_slots',
        calls2 @ map (\<lambda>i. ResetQueryPoolEXT device qp i 1) slot_indices)"
proof (induction slot_indices arbitrary: slot_states free_slots calls2)
  case Nil
  then show ?case by simp
next
  case (Cons i rest)
  from Cons.prems have lt: "i < n" and len: "i < length slot_states"
    and pend: "slot_states ! i = kQueryPendingOnGpu"
    by (auto split: if_splits)
  from Cons.prems lt len pend have
    rec: "ResetQuerySlots_loop n device query_pool True rest
       (slot_states[i := kReadyForQueryIssue], free_slots @ [i], calls) =
     Inr (slot_states', free_slots', calls')"
    by (simp add: Let_def)
  from Cons.IH [OF rec, of "calls2 @ [ResetQueryPoolEXT device qp i 1]"] lt len pend
  show ?case by (simp add: Let_def)
qed

lemma ResetQuerySlotsInternal_effect:
  assumes ok: "ResetQuerySlotsInternal device slot_indices rollback_only p = Inr p'"
    and ne: "slot_indices \<noteq> []"
  shows "\<exists>slot_states free_slots slot_states'.
     device_to_query_slots p device = Some slot_states \<and>
     device_to_free_slots p device = Some free_slots \<and>
     device_to_query_slots p' device = Some slot_states' \<and>
     device_to_free_slots p' device = Some (free_slots @ slot_indices) \<and>
     distinct slot_indices \<and>
     (\<forall>i\<in>set slot_indices. i < num_timer_query_slots p \<and>
        slot_states ! i = kQueryPendingOnGpu \<and> slot_states' ! i = kReadyForQueryIssue) \<and>
     (\<forall>i. i \<notin> set slot_indices \<longrightarrow> slot_states' ! i = slot_states ! i) \<and>
     (rollback_only \<longrightarrow> dispatch_calls p' = dispatch_calls p) \<and>
     (\<not> rollback_only \<longrightarrow>
        (\<exists>qp. device_to_query_pool p device = Some qp \<and>
           dispatch_calls p' = dispatch_calls p @
             map (\<lambda>i. ResetQueryPoolEXT device qp i 1) slot_indices))"
proof -
  from ok ne obtain slot_states free_slots slot_states' free_slots' calls' where
    q: "device_to_query_slots p device = Some slot_states" and
    f: "device_to_free_slots p device = Some free_slots" and
    loop: "ResetQuerySlots_loop (num_timer_query_slots p) device (device_to_query_pool p device)
             rollback_only slot_indices (slot_states, free_slots, dispatch_calls p) =
           Inr (slot_states', free_slots', calls')" and
    p': "p' = p\<lparr>device_to_query_slots := (device_to_query_slots p)(device \<mapsto> slot_states'),
                device_to_free_slots := (device_to_free_slots p)(device \<mapsto> free_slots'),
                dispatch_calls := calls'\<rparr>"
    by (auto simp: ResetQuerySlotsInternal_def split: option.splits sum.splits)
  note eff = ResetQuerySlots_loop_effect [OF loop]
  note pen = ResetQuerySlots_loop_pending [OF loop]
  from p' have "device_to_query_slots p' device = Some slot_states'"
    and "device_to_free_slots p' device = Some free_slots'"
    and "dispatch_calls p' = calls'"
    by simp_all
  with q f eff pen ne show ?thesis by auto
qed

lemma Rollback_same_bookkeeping:
  assumes ok: "RollbackPendingQuerySlots device slot_indices p = Inr p'"
    and qp: "device_to_query_pool p device = Some qp"
  shows "ResetQuerySlots device slot_indices p =
         Inr (p'\<lparr>dispatch_calls := dispatch_calls p @
                   map (\<lambda>i. ResetQueryPoolEXT device qp i 1) slot_indices\<rparr>)"
proof (cases "slot_indices = []")
  case True
  with ok show ?thesis
    by (simp add: RollbackPendingQuerySlots_def ResetQuerySlots_def ResetQuerySlotsInternal_def)
next
  case False
  with ok obtain slot_states free_slots slot_states' free_slots' calls' where
    q: "device_to_query_slots p device = Some slot_states" and
    f: "device_to_free_slots p device = Some free_slots" and
    loop: "ResetQuerySlots_loop (num_timer_query_slots p) device (device_to_query_pool p device)
             True slot_indices (slot_states, free_slots, dispatch_calls p) =
           Inr (slot_states', free_slots', calls')" and
    p': "p' = p\<lparr>device_to_query_slots := (device_to_query_slots p)(device \<mapsto> slot_states'),
                device_to_free_slots := (device_to_free_slots p)(device \<mapsto> free_slots'),
                dispatch_calls := calls'\<rparr>"
    by (auto simp: RollbackPendingQuerySlots_def ResetQuerySlotsInternal_def
             split: option.splits sum.splits)
  from ResetQuerySlots_loop_rollback_same [OF loop, of qp "dispatch_calls p"]
  show ?thesis using False q f qp
    by (simp add: ResetQuerySlots_def ResetQuerySlotsInternal_def p')
qed


text \<open>
  Claim C6. On a pool that satisfies the invariant, every slot operation that returns
  (acquire through \<open>NextReadyQuerySlot\<close>, release through \<open>ResetQuerySlots\<close> or
  \<open>RollbackPendingQuerySlots\<close>) leaves a pool that satisfies it again: for every
  initialized device the state vector has \<open>N\<close> entries, each slot is either ready or
  pending, the numbers of ready and pending slots add up to \<open>N\<close>, and the free list holds
  exactly the ready slots, each once.
\<close>

theorem slot_pool_operations_preserve_invariant:
  assumes inv: "pool_inv p"
    and op: "NextReadyQuerySlot device p = Inr (r, p') \<or>
             ResetQuerySlots device slot_indices p = Inr p' \<or>
             RollbackPendingQuerySlots device slot_indices p = Inr p'"
  shows "pool_inv p' \<and>
         (\<forall>d slot_states free_slots.
            device_to_query_slots p' d = Some slot_states \<longrightarrow>
            device_to_free_slots p' d = Some free_slots \<longrightarrow>
              length slot_states = num_timer_query_slots p' \<and>
              ready_count slot_states + pending_count slot_states = num_timer_query_slots p' \<and>
              length free_slots = ready_count slot_states \<and>
              distinct free_slots \<and>
              set free_slots =
                {i. i < num_timer_query_slots p' \<and> slot_states ! i = kReadyForQueryIssue})"
proof -
  from inv op have inv': "pool_inv p'"
    unfolding ResetQuerySlots_def RollbackPendingQuerySlots_def
    using NextReadyQuerySlot_inv ResetQuerySlotsInternal_inv by blast
  have "length slot_states = num_timer_query_slots p' \<and>
        ready_count slot_states + pending_count slot_states = num_timer_query_slots p' \<and>
        length free_slots = ready_count slot_states \<and>
        distinct free_slots \<and>
        set free_slots =
          {i. i < num_timer_query_slots p' \<and> slot_states ! i = kReadyForQueryIssue}"
    if q: "device_to_query_slots p' d = Some slot_states"
      and f: "device_to_free_slots p' d = Some free_slots"
    for d slot_states free_slots
  proof -
    from inv' q f have si: "slots_inv (num_timer_query_slots p') slot_states free_slots"
      by (simp add: pool_inv_def)
    then have len: "length slot_states = num_timer_query_slots p'"
      by (simp add: slots_inv_def)
    from si have "length free_slots = ready_count slot_states"
      by (rule slots_inv_free_length)
    moreover from len have
      "ready_count slot_states + pending_count slot_states = num_timer_query_slots p'"
      by (simp add: ready_pending_count)
    moreover from si have "distinct free_slots" and
      "set free_slots =
         {i. i < num_timer_query_slots p' \<and> slot_states ! i = kReadyForQueryIssue}"
      by (auto simp: slots_inv_def)
    ultimately show ?thesis using len by simp
  qed
  with inv' show ?thesis by blast
qed

theorem slot_pool_operations_preserve_invariant_witness:
  "pool_inv example_pool \<and>
   NextReadyQuerySlot 1 example_pool = Inr (Some 1, example_pool_acquired) \<and>
   pool_inv example_pool_acquired \<and>
   device_to_free_slots example_pool_acquired 1 = Some [0] \<and>
   RollbackPendingQuerySlots 1 [1] example_pool_acquired = Inr example_pool \<and>
   ResetQuerySlots 1 [1] example_pool_acquired =
     Inr (example_pool\<lparr>dispatch_calls :=
            [ResetQueryPoolEXT 1 9 0 2, ResetQueryPoolEXT 1 9 1 1]\<rparr>) \<and>
   pool_inv (example_pool\<lparr>dispatch_calls :=
            [ResetQueryPoolEXT 1 9 0 2, ResetQueryPoolEXT 1 9 1 1]\<rparr>)"
proof -
  have init: "InitializeTimerQueryPool 1 (Some 9) (new_TimerQueryPool 2) = Inr example_pool"
    by (simp add: InitializeTimerQueryPool_def new_TimerQueryPool_def example_pool_def
        numeral_2_eq_2)
  have inv0: "pool_inv example_pool"
    using pool_inv_new init by (rule InitializeTimerQueryPool_inv)
  have op: "NextReadyQuerySlot 1 example_pool = Inr (Some 1, example_pool_acquired)"
    by (simp add: NextReadyQuerySlot_def example_pool_def example_pool_acquired_def)
  from slot_pool_operations_preserve_invariant [OF inv0 disjI1, OF op]
  have inv1: "pool_inv example_pool_acquired" by blast
  have free: "device_to_free_slots example_pool_acquired 1 = Some [0]"
    by (simp add: example_pool_acquired_def)
  have rb: "RollbackPendingQuerySlots 1 [1] example_pool_acquired = Inr example_pool"
    by (simp add: RollbackPendingQuerySlots_def ResetQuerySlotsInternal_def
        example_pool_def example_pool_acquired_def)
  have rs: "ResetQuerySlots 1 [1] example_pool_acquired =
     Inr (example_pool\<lparr>dispatch_calls :=
            [ResetQueryPoolEXT 1 9 0 2, ResetQueryPoolEXT 1 9 1 1]\<rparr>)"
    by (simp add: ResetQuerySlots_def ResetQuerySlotsInternal_def
        example_pool_def example_pool_acquired_def)
  from slot_pool_operations_preserve_invariant [OF inv1 disjI2, OF disjI1, OF rs]
  have inv2: "pool_inv (example_pool\<lparr>dispatch_calls :=
            [ResetQueryPoolEXT 1 9 0 2, ResetQueryPoolEXT 1 9 1 1]\<rparr>)" by blast
  from inv0 op inv1 free rb rs inv2 show ?thesis by blast
qed

section \<open>Properties of the submission tracker\<close>

text \<open>The definitions that a run of hooks on a concrete tracker unfolds.\<close>

lemmas hook_defs = TrackCommandBuffers_def MarkCommandBufferBegin_def MarkCommandBufferEnd_def
  MarkDebugMarkerBegin_def MarkDebugMarkerEnd_def DoPostSubmitQueue_def
  DoPostSubmitQueue_not_capturing_def DoPostSubmitQueue_capturing_def ResetCommandBuffer_def
  RecordTimestamp_def GetQueryPool_def NextReadyQuerySlot_def attach_marker_slot_def
  set_back_slot_index_def empty_CommandBufferState_def gather_slots_def option_list_def
  ResetQuerySlots_def RollbackPendingQuerySlots_def ResetQuerySlotsInternal_def
  new_SubmissionTracker_def VK_NULL_HANDLE_def PreSubmission_def Let_def

subsection \<open>Tracking\<close>

text \<open>
  Claim C5. Tracking a command buffer that is already tracked is meant to be fatal (the
  test \<open>CannotTrackTheSameCommandBufferTwice\<close> expects the process to die).
  \<open>TrackCommandBuffers\<close> has no \<open>CHECK\<close>: the second call with the same device, pool and
  command buffer returns, and leaves the buffer registered as before.
\<close>

theorem track_same_command_buffer_twice_returns:
  "run_hooks [Track 1 1 [7], Track 1 1 [7]] tracker0 =
     Inr (tracker0\<lparr>pool_to_command_buffers := [1 \<mapsto> {7}],
                   command_buffer_to_device := [7 \<mapsto> 1]\<rparr>)"
  by (simp add: hook_defs tracker0_def pool4_def)

subsection \<open>Recording markers\<close>

lemma RecordTimestamp_Inr:
  assumes "RecordTimestamp cb stage s = Inr (slot, s2)"
  shows "\<exists>device qp p1.
           command_buffer_to_device s cb = Some device \<and>
           device_to_query_pool (timer_query_pool s) device = Some qp \<and>
           NextReadyQuerySlot device (timer_query_pool s) = Inr (Some slot, p1) \<and>
           s2 = s\<lparr>timer_query_pool :=
                   p1\<lparr>dispatch_calls := dispatch_calls p1 @
                        [CmdWriteTimestamp cb stage qp slot]\<rparr>\<rparr>"
  using assms
  by (auto simp: RecordTimestamp_def GetQueryPool_def split: option.splits sum.splits prod.splits)

lemma RecordTimestamp_total:
  assumes inv: "pool_inv (timer_query_pool s)"
    and dev: "command_buffer_to_device s cb = Some device"
    and free: "device_to_free_slots (timer_query_pool s) device = Some free_slots"
    and ne: "free_slots \<noteq> []"
  shows "\<exists>slot s2. RecordTimestamp cb stage s = Inr (slot, s2)"
proof -
  from inv free have qp: "device_to_query_pool (timer_query_pool s) device \<noteq> None"
    unfolding pool_inv_def by (metis option.distinct(1))
  from NextReadyQuerySlot_total [OF inv qp] obtain r p1 where
    nx: "NextReadyQuerySlot device (timer_query_pool s) = Inr (r, p1)" by blast
  from nx free ne have "r \<noteq> None"
    by (auto simp: NextReadyQuerySlot_def Let_def split: option.splits if_splits)
  with nx qp dev show ?thesis
    by (auto simp: RecordTimestamp_def GetQueryPool_def split: option.splits)
qed

lemma attach_marker_slot_appended:
  assumes "command_buffer_to_state s cb = Some (state\<lparr>markers := ms @ [m]\<rparr>)"
  shows "attach_marker_slot cb slot s =
         Inr (s\<lparr>command_buffer_to_state := (command_buffer_to_state s)
                (cb \<mapsto> state\<lparr>markers := ms @ [m\<lparr>slot_index := Some slot\<rparr>]\<rparr>)\<rparr>)"
  using assms by (simp add: attach_marker_slot_def set_back_slot_index_def)


lemma MarkDebugMarkerBegin_filtered:
  assumes rec: "command_buffer_to_state s cb = Some state"
    and filter: "\<not> capturing \<or>
                 (max_local_marker_depth_per_command_buffer s > 0 \<and>
                  local_marker_stack_size state + 1 > max_local_marker_depth_per_command_buffer s)"
  shows "MarkDebugMarkerBegin capturing cb text color s =
         Inr (s\<lparr>command_buffer_to_state := (command_buffer_to_state s)
                (cb \<mapsto> state\<lparr>markers := markers state @
                              [\<lparr>type = kDebugMarkerBegin, slot_index = None,
                                marker_text = Some text, marker_color = Some color\<rparr>],
                            local_marker_stack_size := local_marker_stack_size state + 1\<rparr>)\<rparr>)"
  using assms by (auto simp: MarkDebugMarkerBegin_def Let_def)

lemma MarkDebugMarkerEnd_filtered:
  assumes rec: "command_buffer_to_state s cb = Some state"
    and filter: "\<not> capturing \<or>
                 (max_local_marker_depth_per_command_buffer s > 0 \<and>
                  local_marker_stack_size state > max_local_marker_depth_per_command_buffer s)"
  shows "MarkDebugMarkerEnd capturing cb s =
         Inr (s\<lparr>command_buffer_to_state := (command_buffer_to_state s)
                (cb \<mapsto> state\<lparr>markers := markers state @
                              [\<lparr>type = kDebugMarkerEnd, slot_index = None,
                                marker_text = None, marker_color = None\<rparr>],
                            local_marker_stack_size :=
                              (if local_marker_stack_size state = 0 then 0
                               else local_marker_stack_size state - 1)\<rparr>)\<rparr>)"
  using assms by (auto simp: MarkDebugMarkerEnd_def Let_def)

lemma MarkDebugMarkerBegin_slot:
  assumes rec: "command_buffer_to_state s cb = Some state"
    and nofilter: "\<not> (max_local_marker_depth_per_command_buffer s > 0 \<and>
                  local_marker_stack_size state + 1 > max_local_marker_depth_per_command_buffer s)"
    and ok: "MarkDebugMarkerBegin True cb text color s = Inr s'"
  shows "\<exists>slot device qp p1 slot_states free_slots.
           command_buffer_to_device s cb = Some device \<and>
           device_to_query_pool (timer_query_pool s) device = Some qp \<and>
           NextReadyQuerySlot device (timer_query_pool s) = Inr (Some slot, p1) \<and>
           device_to_query_slots (timer_query_pool s) device = Some slot_states \<and>
           device_to_free_slots (timer_query_pool s) device = Some (free_slots @ [slot]) \<and>
           slot < length slot_states \<and> slot_states ! slot = kReadyForQueryIssue \<and>
           device_to_query_slots (timer_query_pool s') device =
             Some (slot_states[slot := kQueryPendingOnGpu]) \<and>
           device_to_free_slots (timer_query_pool s') device = Some free_slots \<and>
           (pool_inv (timer_query_pool s) \<longrightarrow> slot \<notin> set free_slots) \<and>
           s' = s\<lparr>command_buffer_to_state := (command_buffer_to_state s)
                  (cb \<mapsto> state\<lparr>markers := markers state @
                                [\<lparr>type = kDebugMarkerBegin, slot_index = Some slot,
                                  marker_text = Some text, marker_color = Some color\<rparr>],
                              local_marker_stack_size := local_marker_stack_size state + 1\<rparr>),
                  timer_query_pool :=
                    p1\<lparr>dispatch_calls := dispatch_calls p1 @
                         [CmdWriteTimestamp cb VK_PIPELINE_STAGE_TOP_OF_PIPE_BIT qp slot]\<rparr>\<rparr>"
proof -
  let ?m = "\<lparr>type = kDebugMarkerBegin, slot_index = None,
             marker_text = Some text, marker_color = Some color\<rparr>"
  let ?state1 = "state\<lparr>markers := markers state @ [?m],
                       local_marker_stack_size := local_marker_stack_size state + 1\<rparr>"
  let ?s1 = "s\<lparr>command_buffer_to_state := (command_buffer_to_state s)(cb \<mapsto> ?state1)\<rparr>"
  from rec nofilter ok obtain slot s2 where
    rt: "RecordTimestamp cb VK_PIPELINE_STAGE_TOP_OF_PIPE_BIT ?s1 = Inr (slot, s2)" and
    at: "attach_marker_slot cb slot s2 = Inr s'"
    by (auto simp: MarkDebugMarkerBegin_def Let_def split: sum.splits)
  from RecordTimestamp_Inr [OF rt] obtain device qp p1 where
    dev: "command_buffer_to_device s cb = Some device" and
    qp: "device_to_query_pool (timer_query_pool s) device = Some qp" and
    nx: "NextReadyQuerySlot device (timer_query_pool s) = Inr (Some slot, p1)" and
    s2: "s2 = ?s1\<lparr>timer_query_pool :=
                   p1\<lparr>dispatch_calls := dispatch_calls p1 @
                        [CmdWriteTimestamp cb VK_PIPELINE_STAGE_TOP_OF_PIPE_BIT qp slot]\<rparr>\<rparr>"
    by auto
  have "command_buffer_to_state s2 cb =
        Some ((state\<lparr>local_marker_stack_size := local_marker_stack_size state + 1\<rparr>)
                \<lparr>markers := markers state @ [?m]\<rparr>)"
    by (simp add: s2)
  from attach_marker_slot_appended [OF this, of slot] at [symmetric]
  have "Inr s' = (Inr (s2\<lparr>command_buffer_to_state := (command_buffer_to_state s2)
                (cb \<mapsto> (state\<lparr>local_marker_stack_size := local_marker_stack_size state + 1\<rparr>)
                          \<lparr>markers := markers state @ [?m\<lparr>slot_index := Some slot\<rparr>]\<rparr>)\<rparr>)
                 :: error + SubmissionTracker)"
    by (rule trans [rotated])
  then have eq1: "s' = s2\<lparr>command_buffer_to_state := (command_buffer_to_state s2)
                (cb \<mapsto> (state\<lparr>local_marker_stack_size := local_marker_stack_size state + 1\<rparr>)
                          \<lparr>markers := markers state @ [?m\<lparr>slot_index := Some slot\<rparr>]\<rparr>)\<rparr>"
    by (simp only: sum.inject)
  have st: "(state\<lparr>local_marker_stack_size := local_marker_stack_size state + 1\<rparr>)
                   \<lparr>markers := markers state @ [?m\<lparr>slot_index := Some slot\<rparr>]\<rparr> =
                 state\<lparr>markers := markers state @
                          [\<lparr>type = kDebugMarkerBegin, slot_index = Some slot,
                            marker_text = Some text, marker_color = Some color\<rparr>],
                       local_marker_stack_size := local_marker_stack_size state + 1\<rparr>"
    by (rule CommandBufferState.equality) simp_all
  have fin: "s' = s\<lparr>command_buffer_to_state := (command_buffer_to_state s)
                  (cb \<mapsto> state\<lparr>markers := markers state @
                                [\<lparr>type = kDebugMarkerBegin, slot_index = Some slot,
                                  marker_text = Some text, marker_color = Some color\<rparr>],
                              local_marker_stack_size := local_marker_stack_size state + 1\<rparr>),
                  timer_query_pool :=
                    p1\<lparr>dispatch_calls := dispatch_calls p1 @
                         [CmdWriteTimestamp cb VK_PIPELINE_STAGE_TOP_OF_PIPE_BIT qp slot]\<rparr>\<rparr>"
    unfolding eq1 st unfolding s2
    by (intro SubmissionTracker.equality) simp_all
  from NextReadyQuerySlot_effect [OF nx] obtain slot_states free_slots where
    q: "device_to_query_slots (timer_query_pool s) device = Some slot_states" and
    f: "device_to_free_slots (timer_query_pool s) device = Some (free_slots @ [slot])" and
    lt: "slot < length slot_states" and
    rdy: "slot_states ! slot = kReadyForQueryIssue" and
    p1: "p1 = (timer_query_pool s)
            \<lparr>device_to_free_slots :=
               (device_to_free_slots (timer_query_pool s))(device \<mapsto> free_slots),
             device_to_query_slots := (device_to_query_slots (timer_query_pool s))
               (device \<mapsto> slot_states[slot := kQueryPendingOnGpu])\<rparr>" and
    off: "pool_inv (timer_query_pool s) \<longrightarrow> slot \<notin> set free_slots"
    by blast
  have q': "device_to_query_slots (timer_query_pool s') device =
             Some (slot_states[slot := kQueryPendingOnGpu])"
    by (subst fin) (simp add: p1)
  have f': "device_to_free_slots (timer_query_pool s') device = Some free_slots"
    by (subst fin) (simp add: p1)
  from dev qp nx q f lt rdy q' f' off fin show ?thesis by blast
qed

lemma MarkDebugMarkerEnd_slot:
  assumes rec: "command_buffer_to_state s cb = Some state"
    and nofilter: "\<not> (max_local_marker_depth_per_command_buffer s > 0 \<and>
                  local_marker_stack_size state > max_local_marker_depth_per_command_buffer s)"
    and ok: "MarkDebugMarkerEnd True cb s = Inr s'"
  shows "\<exists>slot device qp p1 slot_states free_slots.
           command_buffer_to_device s cb = Some device \<and>
           device_to_query_pool (timer_query_pool s) device = Some qp \<and>
           NextReadyQuerySlot device (timer_query_pool s) = Inr (Some slot, p1) \<and>
           device_to_query_slots (timer_query_pool s) device = Some slot_states \<and>
           device_to_free_slots (timer_query_pool s) device = Some (free_slots @ [slot]) \<and>
           slot < length slot_states \<and> slot_states ! slot = kReadyForQueryIssue \<and>
           device_to_query_slots (timer_query_pool s') device =
             Some (slot_states[slot := kQueryPendingOnGpu]) \<and>
           device_to_free_slots (timer_query_pool s') device = Some free_slots \<and>
           (pool_inv (timer_query_pool s) \<longrightarrow> slot \<notin> set free_slots) \<and>
           s' = s\<lparr>command_buffer_to_state := (command_buffer_to_state s)
                  (cb \<mapsto> state\<lparr>markers := markers state @
                                [\<lparr>type = kDebugMarkerEnd, slot_index = Some slot,
                                  marker_text = None, marker_color = None\<rparr>],
                              local_marker_stack_size :=
                                (if local_marker_stack_size state = 0 then 0
                                 else local_marker_stack_size state - 1)\<rparr>),
                  timer_query_pool :=
                    p1\<lparr>dispatch_calls := dispatch_calls p1 @
                         [CmdWriteTimestamp cb VK_PIPELINE_STAGE_BOTTOM_OF_PIPE_BIT qp slot]\<rparr>\<rparr>"
proof -
  let ?m = "\<lparr>type = kDebugMarkerEnd, slot_index = None,
             marker_text = None, marker_color = None\<rparr>"
  let ?d = "if local_marker_stack_size state = 0 then 0 else local_marker_stack_size state - 1"
  let ?state1 = "state\<lparr>markers := markers state @ [?m], local_marker_stack_size := ?d\<rparr>"
  let ?s1 = "s\<lparr>command_buffer_to_state := (command_buffer_to_state s)(cb \<mapsto> ?state1)\<rparr>"
  from rec nofilter ok obtain slot s2 where
    rt: "RecordTimestamp cb VK_PIPELINE_STAGE_BOTTOM_OF_PIPE_BIT ?s1 = Inr (slot, s2)" and
    at: "attach_marker_slot cb slot s2 = Inr s'"
    by (auto simp: MarkDebugMarkerEnd_def Let_def split: sum.splits if_splits)
  from RecordTimestamp_Inr [OF rt] obtain device qp p1 where
    dev: "command_buffer_to_device s cb = Some device" and
    qp: "device_to_query_pool (timer_query_pool s) device = Some qp" and
    nx: "NextReadyQuerySlot device (timer_query_pool s) = Inr (Some slot, p1)" and
    s2: "s2 = ?s1\<lparr>timer_query_pool :=
                   p1\<lparr>dispatch_calls := dispatch_calls p1 @
                        [CmdWriteTimestamp cb VK_PIPELINE_STAGE_BOTTOM_OF_PIPE_BIT qp slot]\<rparr>\<rparr>"
    by auto
  have "command_buffer_to_state s2 cb =
        Some ((state\<lparr>local_marker_stack_size := ?d\<rparr>)\<lparr>markers := markers state @ [?m]\<rparr>)"
    by (simp add: s2)
  from attach_marker_slot_appended [OF this, of slot] at [symmetric]
  have "Inr s' = (Inr (s2\<lparr>command_buffer_to_state := (command_buffer_to_state s2)
                (cb \<mapsto> (state\<lparr>local_marker_stack_size := ?d\<rparr>)
                          \<lparr>markers := markers state @ [?m\<lparr>slot_index := Some slot\<rparr>]\<rparr>)\<rparr>)
                 :: error + SubmissionTracker)"
    by (rule trans [rotated])
  then have eq1: "s' = s2\<lparr>command_buffer_to_state := (command_buffer_to_state s2)
                (cb \<mapsto> (state\<lparr>local_marker_stack_size := ?d\<rparr>)
                          \<lparr>markers := markers state @ [?m\<lparr>slot_index := Some slot\<rparr>]\<rparr>)\<rparr>"
    by (simp only: sum.inject)
  have st: "(state\<lparr>local_marker_stack_size := ?d\<rparr>)
                   \<lparr>markers := markers state @ [?m\<lparr>slot_index := Some slot\<rparr>]\<rparr> =
                 state\<lparr>markers := markers state @
                          [\<lparr>type = kDebugMarkerEnd, slot_index = Some slot,
                            marker_text = None, marker_color = None\<rparr>],
                       local_marker_stack_size := ?d\<rparr>"
    by (rule CommandBufferState.equality) simp_all
  have fin: "s' = s\<lparr>command_buffer_to_state := (command_buffer_to_state s)
                  (cb \<mapsto> state\<lparr>markers := markers state @
                                [\<lparr>type = kDebugMarkerEnd, slot_index = Some slot,
                                  marker_text = None, marker_color = None\<rparr>],
                              local_marker_stack_size := ?d\<rparr>),
                  timer_query_pool :=
                    p1\<lparr>dispatch_calls := dispatch_calls p1 @
                         [CmdWriteTimestamp cb VK_PIPELINE_STAGE_BOTTOM_OF_PIPE_BIT qp slot]\<rparr>\<rparr>"
    unfolding eq1 st unfolding s2
    by (intro SubmissionTracker.equality) simp_all
  from NextReadyQuerySlot_effect [OF nx] obtain slot_states free_slots where
    q: "device_to_query_slots (timer_query_pool s) device = Some slot_states" and
    f: "device_to_free_slots (timer_query_pool s) device = Some (free_slots @ [slot])" and
    lt: "slot < length slot_states" and
    rdy: "slot_states ! slot = kReadyForQueryIssue" and
    p1: "p1 = (timer_query_pool s)
            \<lparr>device_to_free_slots :=
               (device_to_free_slots (timer_query_pool s))(device \<mapsto> free_slots),
             device_to_query_slots := (device_to_query_slots (timer_query_pool s))
               (device \<mapsto> slot_states[slot := kQueryPendingOnGpu])\<rparr>" and
    off: "pool_inv (timer_query_pool s) \<longrightarrow> slot \<notin> set free_slots"
    by blast
  have q': "device_to_query_slots (timer_query_pool s') device =
             Some (slot_states[slot := kQueryPendingOnGpu])"
    by (subst fin) (simp add: p1)
  have f': "device_to_free_slots (timer_query_pool s') device = Some free_slots"
    by (subst fin) (simp add: p1)
  from dev qp nx q f lt rdy q' f' off fin show ?thesis by blast
qed

lemma MarkDebugMarkerBegin_returns:
  assumes rec: "command_buffer_to_state s cb = Some state"
    and inv: "pool_inv (timer_query_pool s)"
    and dev: "command_buffer_to_device s cb = Some device"
    and free: "device_to_free_slots (timer_query_pool s) device = Some free_slots"
    and ne: "free_slots \<noteq> []"
  shows "\<exists>s'. MarkDebugMarkerBegin capturing cb text color s = Inr s'"
proof (cases "\<not> capturing \<or>
                 (max_local_marker_depth_per_command_buffer s > 0 \<and>
                  local_marker_stack_size state + 1 > max_local_marker_depth_per_command_buffer s)")
  case True
  from MarkDebugMarkerBegin_filtered [OF rec True] show ?thesis by blast
next
  case False
  let ?m = "\<lparr>type = kDebugMarkerBegin, slot_index = None,
             marker_text = Some text, marker_color = Some color\<rparr>"
  let ?state1 = "state\<lparr>markers := markers state @ [?m],
                       local_marker_stack_size := local_marker_stack_size state + 1\<rparr>"
  let ?s1 = "s\<lparr>command_buffer_to_state := (command_buffer_to_state s)(cb \<mapsto> ?state1)\<rparr>"
  have "\<exists>slot s2. RecordTimestamp cb VK_PIPELINE_STAGE_TOP_OF_PIPE_BIT ?s1 = Inr (slot, s2)"
    by (rule RecordTimestamp_total [where device = device and free_slots = free_slots])
       (simp_all add: inv dev free ne)
  then obtain slot s2 where
    rt: "RecordTimestamp cb VK_PIPELINE_STAGE_TOP_OF_PIPE_BIT ?s1 = Inr (slot, s2)" by blast
  from RecordTimestamp_Inr [OF rt] have
    "command_buffer_to_state s2 cb =
       Some ((state\<lparr>local_marker_stack_size := local_marker_stack_size state + 1\<rparr>)
               \<lparr>markers := markers state @ [?m]\<rparr>)"
    by auto
  from attach_marker_slot_appended [OF this, of slot]
  have "\<exists>s'. attach_marker_slot cb slot s2 = Inr s'" by blast
  with rec False rt show ?thesis
    by (auto simp: MarkDebugMarkerBegin_def Let_def)
qed

lemma MarkDebugMarkerEnd_returns:
  assumes rec: "command_buffer_to_state s cb = Some state"
    and inv: "pool_inv (timer_query_pool s)"
    and dev: "command_buffer_to_device s cb = Some device"
    and free: "device_to_free_slots (timer_query_pool s) device = Some free_slots"
    and ne: "free_slots \<noteq> []"
  shows "\<exists>s'. MarkDebugMarkerEnd capturing cb s = Inr s'"
proof (cases "\<not> capturing \<or>
                 (max_local_marker_depth_per_command_buffer s > 0 \<and>
                  local_marker_stack_size state > max_local_marker_depth_per_command_buffer s)")
  case True
  from MarkDebugMarkerEnd_filtered [OF rec True] show ?thesis by blast
next
  case False
  let ?m = "\<lparr>type = kDebugMarkerEnd, slot_index = None,
             marker_text = None, marker_color = None\<rparr>"
  let ?d = "if local_marker_stack_size state = 0 then 0 else local_marker_stack_size state - 1"
  let ?state1 = "state\<lparr>markers := markers state @ [?m], local_marker_stack_size := ?d\<rparr>"
  let ?s1 = "s\<lparr>command_buffer_to_state := (command_buffer_to_state s)(cb \<mapsto> ?state1)\<rparr>"
  have "\<exists>slot s2. RecordTimestamp cb VK_PIPELINE_STAGE_BOTTOM_OF_PIPE_BIT ?s1 = Inr (slot, s2)"
    by (rule RecordTimestamp_total [where device = device and free_slots = free_slots])
       (simp_all add: inv dev free ne)
  then obtain slot s2 where
    rt: "RecordTimestamp cb VK_PIPELINE_STAGE_BOTTOM_OF_PIPE_BIT ?s1 = Inr (slot, s2)" by blast
  from RecordTimestamp_Inr [OF rt] have
    "command_buffer_to_state s2 cb =
       Some ((state\<lparr>local_marker_stack_size := ?d\<rparr>)\<lparr>markers := markers state @ [?m]\<rparr>)"
    by auto
  from attach_marker_slot_appended [OF this, of slot]
  have "\<exists>s'. attach_marker_slot cb slot s2 = Inr s'" by blast
  with rec False rt show ?thesis
    by (auto simp: MarkDebugMarkerEnd_def Let_def split: if_splits)
qed

lemma pool_inv_pool4: "pool_inv pool4"
proof -
  have "InitializeTimerQueryPool 1 (Some 9) (new_TimerQueryPool 4) =
        Inr (pool4\<lparr>dispatch_calls := [ResetQueryPoolEXT 1 9 0 4]\<rparr>)"
    by (simp add: InitializeTimerQueryPool_def new_TimerQueryPool_def pool4_def numeral_eq_Suc)
  with pool_inv_new have "pool_inv (pool4\<lparr>dispatch_calls := [ResetQueryPoolEXT 1 9 0 4]\<rparr>)"
    by (rule InitializeTimerQueryPool_inv)
  then show ?thesis by (simp add: pool_inv_def)
qed


text \<open>
  Claim C9. On a command buffer with a record: without depth filter (\<open>max-depth = 0\<close>), a
  begin marker or an end marker recorded while capturing, when the hook returns, has
  rented a slot from the pool of the buffer's device (the slot was ready and at the back
  of the free list before; it is pending and removed from the free list after, and is
  not on it any more when the pool satisfies its invariant), written its timestamp, and
  carries the slot in its entry. With depth filter \<open>D > 0\<close>, a begin marker whose new
  local depth exceeds \<open>D\<close>, and an end marker recorded at a local depth that exceeds \<open>D\<close>,
  rent no slot (the pool is untouched), but the entry is appended to the record's marker
  list all the same, and the local depth counter goes up by one on a begin and down by
  one, stopping at zero, on an end. (The hook returns whenever the pool has a free slot,
  see \<open>MarkDebugMarkerBegin_returns\<close> and \<open>MarkDebugMarkerEnd_returns\<close>; an exhausted pool
  fails a \<open>CHECK\<close>.)
\<close>

theorem marker_slots_and_depth_filter:
  assumes rec: "command_buffer_to_state s cb = Some state"
  shows
    "(max_local_marker_depth_per_command_buffer s = 0 \<longrightarrow>
      MarkDebugMarkerBegin True cb text color s = Inr s' \<longrightarrow>
      (\<exists>slot device qp p1 slot_states free_slots.
         command_buffer_to_device s cb = Some device \<and>
         device_to_query_pool (timer_query_pool s) device = Some qp \<and>
         NextReadyQuerySlot device (timer_query_pool s) = Inr (Some slot, p1) \<and>
         device_to_query_slots (timer_query_pool s) device = Some slot_states \<and>
         device_to_free_slots (timer_query_pool s) device = Some (free_slots @ [slot]) \<and>
         slot < length slot_states \<and> slot_states ! slot = kReadyForQueryIssue \<and>
         device_to_query_slots (timer_query_pool s') device =
           Some (slot_states[slot := kQueryPendingOnGpu]) \<and>
         device_to_free_slots (timer_query_pool s') device = Some free_slots \<and>
         (pool_inv (timer_query_pool s) \<longrightarrow> slot \<notin> set free_slots) \<and>
         s' = s\<lparr>command_buffer_to_state := (command_buffer_to_state s)
                (cb \<mapsto> state\<lparr>markers := markers state @
                              [\<lparr>type = kDebugMarkerBegin, slot_index = Some slot,
                                marker_text = Some text, marker_color = Some color\<rparr>],
                            local_marker_stack_size := local_marker_stack_size state + 1\<rparr>),
                timer_query_pool :=
                  p1\<lparr>dispatch_calls := dispatch_calls p1 @
                       [CmdWriteTimestamp cb VK_PIPELINE_STAGE_TOP_OF_PIPE_BIT qp slot]\<rparr>\<rparr>)) \<and>
     (max_local_marker_depth_per_command_buffer s = 0 \<longrightarrow>
      MarkDebugMarkerEnd True cb s = Inr s'' \<longrightarrow>
      (\<exists>slot device qp p1 slot_states free_slots.
         command_buffer_to_device s cb = Some device \<and>
         device_to_query_pool (timer_query_pool s) device = Some qp \<and>
         NextReadyQuerySlot device (timer_query_pool s) = Inr (Some slot, p1) \<and>
         device_to_query_slots (timer_query_pool s) device = Some slot_states \<and>
         device_to_free_slots (timer_query_pool s) device = Some (free_slots @ [slot]) \<and>
         slot < length slot_states \<and> slot_states ! slot = kReadyForQueryIssue \<and>
         device_to_query_slots (timer_query_pool s'') device =
           Some (slot_states[slot := kQueryPendingOnGpu]) \<and>
         device_to_free_slots (timer_query_pool s'') device = Some free_slots \<and>
         (pool_inv (timer_query_pool s) \<longrightarrow> slot \<notin> set free_slots) \<and>
         s'' = s\<lparr>command_buffer_to_state := (command_buffer_to_state s)
                 (cb \<mapsto> state\<lparr>markers := markers state @
                               [\<lparr>type = kDebugMarkerEnd, slot_index = Some slot,
                                 marker_text = None, marker_color = None\<rparr>],
                             local_marker_stack_size :=
                               (if local_marker_stack_size state = 0 then 0
                                else local_marker_stack_size state - 1)\<rparr>),
                 timer_query_pool :=
                   p1\<lparr>dispatch_calls := dispatch_calls p1 @
                        [CmdWriteTimestamp cb VK_PIPELINE_STAGE_BOTTOM_OF_PIPE_BIT qp slot]\<rparr>\<rparr>)) \<and>
     (max_local_marker_depth_per_command_buffer s > 0 \<and>
      local_marker_stack_size state + 1 > max_local_marker_depth_per_command_buffer s \<longrightarrow>
      MarkDebugMarkerBegin capturing cb text color s =
        Inr (s\<lparr>command_buffer_to_state := (command_buffer_to_state s)
               (cb \<mapsto> state\<lparr>markers := markers state @
                             [\<lparr>type = kDebugMarkerBegin, slot_index = None,
                               marker_text = Some text, marker_color = Some color\<rparr>],
                           local_marker_stack_size := local_marker_stack_size state + 1\<rparr>)\<rparr>)) \<and>
     (max_local_marker_depth_per_command_buffer s > 0 \<and>
      local_marker_stack_size state > max_local_marker_depth_per_command_buffer s \<longrightarrow>
      MarkDebugMarkerEnd capturing cb s =
        Inr (s\<lparr>command_buffer_to_state := (command_buffer_to_state s)
               (cb \<mapsto> state\<lparr>markers := markers state @
                             [\<lparr>type = kDebugMarkerEnd, slot_index = None,
                               marker_text = None, marker_color = None\<rparr>],
                           local_marker_stack_size :=
                             (if local_marker_stack_size state = 0 then 0
                              else local_marker_stack_size state - 1)\<rparr>)\<rparr>))"
proof (intro conjI impI)
  assume "max_local_marker_depth_per_command_buffer s = 0"
    and ok: "MarkDebugMarkerBegin True cb text color s = Inr s'"
  then have "\<not> (max_local_marker_depth_per_command_buffer s > 0 \<and>
     local_marker_stack_size state + 1 > max_local_marker_depth_per_command_buffer s)"
    by simp
  from MarkDebugMarkerBegin_slot [OF rec this ok]
  show "\<exists>slot device qp p1 slot_states free_slots.
         command_buffer_to_device s cb = Some device \<and>
         device_to_query_pool (timer_query_pool s) device = Some qp \<and>
         NextReadyQuerySlot device (timer_query_pool s) = Inr (Some slot, p1) \<and>
         device_to_query_slots (timer_query_pool s) device = Some slot_states \<and>
         device_to_free_slots (timer_query_pool s) device = Some (free_slots @ [slot]) \<and>
         slot < length slot_states \<and> slot_states ! slot = kReadyForQueryIssue \<and>
         device_to_query_slots (timer_query_pool s') device =
           Some (slot_states[slot := kQueryPendingOnGpu]) \<and>
         device_to_free_slots (timer_query_pool s') device = Some free_slots \<and>
         (pool_inv (timer_query_pool s) \<longrightarrow> slot \<notin> set free_slots) \<and>
         s' = s\<lparr>command_buffer_to_state := (command_buffer_to_state s)
                (cb \<mapsto> state\<lparr>markers := markers state @
                              [\<lparr>type = kDebugMarkerBegin, slot_index = Some slot,
                                marker_text = Some text, marker_color = Some color\<rparr>],
                            local_marker_stack_size := local_marker_stack_size state + 1\<rparr>),
                timer_query_pool :=
                  p1\<lparr>dispatch_calls := dispatch_calls p1 @
                       [CmdWriteTimestamp cb VK_PIPELINE_STAGE_TOP_OF_PIPE_BIT qp slot]\<rparr>\<rparr>" .
next
  assume "max_local_marker_depth_per_command_buffer s = 0"
    and ok: "MarkDebugMarkerEnd True cb s = Inr s''"
  then have "\<not> (max_local_marker_depth_per_command_buffer s > 0 \<and>
     local_marker_stack_size state > max_local_marker_depth_per_command_buffer s)"
    by simp
  from MarkDebugMarkerEnd_slot [OF rec this ok]
  show "\<exists>slot device qp p1 slot_states free_slots.
         command_buffer_to_device s cb = Some device \<and>
         device_to_query_pool (timer_query_pool s) device = Some qp \<and>
         NextReadyQuerySlot device (timer_query_pool s) = Inr (Some slot, p1) \<and>
         device_to_query_slots (timer_query_pool s) device = Some slot_states \<and>
         device_to_free_slots (timer_query_pool s) device = Some (free_slots @ [slot]) \<and>
         slot < length slot_states \<and> slot_states ! slot = kReadyForQueryIssue \<and>
         device_to_query_slots (timer_query_pool s'') device =
           Some (slot_states[slot := kQueryPendingOnGpu]) \<and>
         device_to_free_slots (timer_query_pool s'') device = Some free_slots \<and>
         (pool_inv (timer_query_pool s) \<longrightarrow> slot \<notin> set free_slots) \<and>
         s'' = s\<lparr>command_buffer_to_state := (command_buffer_to_state s)
                 (cb \<mapsto> state\<lparr>markers := markers state @
                               [\<lparr>type = kDebugMarkerEnd, slot_index = Some slot,
                                 marker_text = None, marker_color = None\<rparr>],
                             local_marker_stack_size :=
                               (if local_marker_stack_size state = 0 then 0
                                else local_marker_stack_size state - 1)\<rparr>),
                 timer_query_pool :=
                   p1\<lparr>dispatch_calls := dispatch_calls p1 @
                        [CmdWriteTimestamp cb VK_PIPELINE_STAGE_BOTTOM_OF_PIPE_BIT qp slot]\<rparr>\<rparr>" .
next
  assume "max_local_marker_depth_per_command_buffer s > 0 \<and>
      local_marker_stack_size state + 1 > max_local_marker_depth_per_command_buffer s"
  then have "\<not> capturing \<or>
     (max_local_marker_depth_per_command_buffer s > 0 \<and>
      local_marker_stack_size state + 1 > max_local_marker_depth_per_command_buffer s)"
    by simp
  from MarkDebugMarkerBegin_filtered [OF rec this]
  show "MarkDebugMarkerBegin capturing cb text color s =
        Inr (s\<lparr>command_buffer_to_state := (command_buffer_to_state s)
               (cb \<mapsto> state\<lparr>markers := markers state @
                             [\<lparr>type = kDebugMarkerBegin, slot_index = None,
                               marker_text = Some text, marker_color = Some color\<rparr>],
                           local_marker_stack_size := local_marker_stack_size state + 1\<rparr>)\<rparr>)" .
next
  assume "max_local_marker_depth_per_command_buffer s > 0 \<and>
      local_marker_stack_size state > max_local_marker_depth_per_command_buffer s"
  then have "\<not> capturing \<or>
     (max_local_marker_depth_per_command_buffer s > 0 \<and>
      local_marker_stack_size state > max_local_marker_depth_per_command_buffer s)"
    by simp
  from MarkDebugMarkerEnd_filtered [OF rec this]
  show "MarkDebugMarkerEnd capturing cb s =
        Inr (s\<lparr>command_buffer_to_state := (command_buffer_to_state s)
               (cb \<mapsto> state\<lparr>markers := markers state @
                             [\<lparr>type = kDebugMarkerEnd, slot_index = None,
                               marker_text = None, marker_color = None\<rparr>],
                           local_marker_stack_size :=
                             (if local_marker_stack_size state = 0 then 0
                              else local_marker_stack_size state - 1)\<rparr>)\<rparr>)" .
qed



theorem marker_slots_and_depth_filter_witness:
  "command_buffer_to_state recording0 7 = Some empty_CommandBufferState \<and>
   device_to_free_slots (timer_query_pool recording0) 1 = Some [0, 1, 2, 3] \<and>
   device_to_query_slots (timer_query_pool recording0) 1 =
     Some [kReadyForQueryIssue, kReadyForQueryIssue, kReadyForQueryIssue, kReadyForQueryIssue] \<and>
   (\<exists>s'. MarkDebugMarkerBegin True 7 ''A'' red_color recording0 = Inr s' \<and>
      device_to_free_slots (timer_query_pool s') 1 = Some [0, 1, 2] \<and>
      device_to_query_slots (timer_query_pool s') 1 =
        Some [kReadyForQueryIssue, kReadyForQueryIssue, kReadyForQueryIssue,
              kQueryPendingOnGpu] \<and>
      (case command_buffer_to_state s' 7 of
         None \<Rightarrow> False
       | Some st \<Rightarrow> map slot_index (markers st) = [Some 3] \<and> local_marker_stack_size st = 1)) \<and>
   (\<exists>s'. MarkDebugMarkerEnd True 7 recording0 = Inr s' \<and>
      device_to_free_slots (timer_query_pool s') 1 = Some [0, 1, 2] \<and>
      device_to_query_slots (timer_query_pool s') 1 =
        Some [kReadyForQueryIssue, kReadyForQueryIssue, kReadyForQueryIssue,
              kQueryPendingOnGpu] \<and>
      (case command_buffer_to_state s' 7 of
         None \<Rightarrow> False
       | Some st \<Rightarrow> map slot_index (markers st) = [Some 3] \<and> local_marker_stack_size st = 0)) \<and>
   command_buffer_to_state recording2 7 = Some state2 \<and>
   MarkDebugMarkerBegin True 7 ''C'' red_color recording2 = Inr recording3 \<and>
   map slot_index (markers state3) = [Some 2, Some 1, None] \<and>
   local_marker_stack_size state3 = 3 \<and>
   timer_query_pool recording3 = timer_query_pool recording2 \<and>
   (\<exists>s'. MarkDebugMarkerEnd True 7 recording3 = Inr s' \<and>
      timer_query_pool s' = timer_query_pool recording2 \<and>
      (case command_buffer_to_state s' 7 of
         None \<Rightarrow> False
       | Some st \<Rightarrow> map slot_index (markers st) = [Some 2, Some 1, None, None] \<and>
                   local_marker_stack_size st = 2))"
proof -
  have rec0: "command_buffer_to_state recording0 7 = Some empty_CommandBufferState"
    by (simp add: recording0_def)
  have max0: "max_local_marker_depth_per_command_buffer recording0 = 0"
    by (simp add: recording0_def tracker0_def new_SubmissionTracker_def)
  have pool0: "timer_query_pool recording0 = pool4"
    by (simp add: recording0_def tracker0_def new_SubmissionTracker_def)
  have dev0: "command_buffer_to_device recording0 7 = Some 1"
    by (simp add: recording0_def)
  have free0: "device_to_free_slots (timer_query_pool recording0) 1 = Some [0, 1, 2, 3]"
    by (simp add: pool0 pool4_def)
  have slots0: "device_to_query_slots (timer_query_pool recording0) 1 =
     Some [kReadyForQueryIssue, kReadyForQueryIssue, kReadyForQueryIssue, kReadyForQueryIssue]"
    by (simp add: pool0 pool4_def numeral_eq_Suc)
  have inv0: "pool_inv (timer_query_pool recording0)"
    by (simp add: pool0 pool_inv_pool4)
  have snoc: "\<And>fs x. fs @ [x] = [0, 1, 2, 3::nat] \<Longrightarrow> fs = [0, 1, 2] \<and> x = 3"
    by (metis butlast.simps(2) butlast_snoc last.simps last_snoc list.distinct(1))
  have upd: "[kReadyForQueryIssue, kReadyForQueryIssue, kReadyForQueryIssue,
              kReadyForQueryIssue][3 := kQueryPendingOnGpu] =
             [kReadyForQueryIssue, kReadyForQueryIssue, kReadyForQueryIssue, kQueryPendingOnGpu]"
    by (simp add: numeral_eq_Suc)
  from MarkDebugMarkerBegin_returns [OF rec0 inv0 dev0 free0] obtain sb where
    okb: "MarkDebugMarkerBegin True 7 ''A'' red_color recording0 = Inr sb" by blast
  from MarkDebugMarkerEnd_returns [OF rec0 inv0 dev0 free0] obtain se where
    oke: "MarkDebugMarkerEnd True 7 recording0 = Inr se" by blast
  note inst0 = marker_slots_and_depth_filter
    [OF rec0, of "''A''" red_color sb se True]
  from inst0 max0 okb obtain slot device qp p1 slot_states free_slots where
    d: "command_buffer_to_device recording0 7 = Some device" and
    q: "device_to_query_slots (timer_query_pool recording0) device = Some slot_states" and
    f: "device_to_free_slots (timer_query_pool recording0) device = Some (free_slots @ [slot])" and
    q': "device_to_query_slots (timer_query_pool sb) device =
           Some (slot_states[slot := kQueryPendingOnGpu])" and
    f': "device_to_free_slots (timer_query_pool sb) device = Some free_slots" and
    sb: "sb = recording0\<lparr>command_buffer_to_state := (command_buffer_to_state recording0)
                (7 \<mapsto> empty_CommandBufferState\<lparr>markers := markers empty_CommandBufferState @
                              [\<lparr>type = kDebugMarkerBegin, slot_index = Some slot,
                                marker_text = Some ''A'', marker_color = Some red_color\<rparr>],
                            local_marker_stack_size :=
                              local_marker_stack_size empty_CommandBufferState + 1\<rparr>),
                timer_query_pool :=
                  p1\<lparr>dispatch_calls := dispatch_calls p1 @
                       [CmdWriteTimestamp 7 VK_PIPELINE_STAGE_TOP_OF_PIPE_BIT qp slot]\<rparr>\<rparr>"
    by blast
  from d dev0 have device: "device = 1" by simp
  from f free0 device snoc have fs: "free_slots = [0, 1, 2]" and slot: "slot = 3" by auto
  from q slots0 device have ss: "slot_states =
     [kReadyForQueryIssue, kReadyForQueryIssue, kReadyForQueryIssue, kReadyForQueryIssue]"
    by simp
  have "command_buffer_to_state sb 7 =
          Some (empty_CommandBufferState\<lparr>markers := markers empty_CommandBufferState @
                              [\<lparr>type = kDebugMarkerBegin, slot_index = Some slot,
                                marker_text = Some ''A'', marker_color = Some red_color\<rparr>],
                            local_marker_stack_size :=
                              local_marker_stack_size empty_CommandBufferState + 1\<rparr>)"
    by (subst sb) simp
  then have b1: "case command_buffer_to_state sb 7 of
             None \<Rightarrow> False
           | Some st \<Rightarrow> map slot_index (markers st) = [Some 3] \<and> local_marker_stack_size st = 1"
    by (simp add: slot empty_CommandBufferState_def)
  from q' f' device fs slot ss upd
  have b2: "device_to_free_slots (timer_query_pool sb) 1 = Some [0, 1, 2]"
    and b3: "device_to_query_slots (timer_query_pool sb) 1 =
        Some [kReadyForQueryIssue, kReadyForQueryIssue, kReadyForQueryIssue,
              kQueryPendingOnGpu]"
    by simp_all
  from inst0 max0 oke obtain slot2 device2 qp2 p2 slot_states2 free_slots2 where
    d2: "command_buffer_to_device recording0 7 = Some device2" and
    q2: "device_to_query_slots (timer_query_pool recording0) device2 = Some slot_states2" and
    f2: "device_to_free_slots (timer_query_pool recording0) device2 =
           Some (free_slots2 @ [slot2])" and
    q2': "device_to_query_slots (timer_query_pool se) device2 =
           Some (slot_states2[slot2 := kQueryPendingOnGpu])" and
    f2': "device_to_free_slots (timer_query_pool se) device2 = Some free_slots2" and
    se: "se = recording0\<lparr>command_buffer_to_state := (command_buffer_to_state recording0)
                 (7 \<mapsto> empty_CommandBufferState\<lparr>markers := markers empty_CommandBufferState @
                               [\<lparr>type = kDebugMarkerEnd, slot_index = Some slot2,
                                 marker_text = None, marker_color = None\<rparr>],
                             local_marker_stack_size :=
                               (if local_marker_stack_size empty_CommandBufferState = 0 then 0
                                else local_marker_stack_size empty_CommandBufferState - 1)\<rparr>),
                 timer_query_pool :=
                   p2\<lparr>dispatch_calls := dispatch_calls p2 @
                        [CmdWriteTimestamp 7 VK_PIPELINE_STAGE_BOTTOM_OF_PIPE_BIT qp2 slot2]\<rparr>\<rparr>"
    by blast
  from d2 dev0 have device2: "device2 = 1" by simp
  from f2 free0 device2 snoc have fs2: "free_slots2 = [0, 1, 2]" and slot2: "slot2 = 3" by auto
  from q2 slots0 device2 have ss2: "slot_states2 =
     [kReadyForQueryIssue, kReadyForQueryIssue, kReadyForQueryIssue, kReadyForQueryIssue]"
    by simp
  have "command_buffer_to_state se 7 =
          Some (empty_CommandBufferState\<lparr>markers := markers empty_CommandBufferState @
                               [\<lparr>type = kDebugMarkerEnd, slot_index = Some slot2,
                                 marker_text = None, marker_color = None\<rparr>],
                             local_marker_stack_size :=
                               (if local_marker_stack_size empty_CommandBufferState = 0 then 0
                                else local_marker_stack_size empty_CommandBufferState - 1)\<rparr>)"
    by (subst se) simp
  then have e1: "case command_buffer_to_state se 7 of
             None \<Rightarrow> False
           | Some st \<Rightarrow> map slot_index (markers st) = [Some 3] \<and> local_marker_stack_size st = 0"
    by (simp add: slot2 empty_CommandBufferState_def)
  from q2' f2' device2 fs2 slot2 ss2 upd
  have e2: "device_to_free_slots (timer_query_pool se) 1 = Some [0, 1, 2]"
    and e3: "device_to_query_slots (timer_query_pool se) 1 =
        Some [kReadyForQueryIssue, kReadyForQueryIssue, kReadyForQueryIssue,
              kQueryPendingOnGpu]"
    by simp_all
  have rec2: "command_buffer_to_state recording2 7 = Some state2"
    by (simp add: recording2_def)
  have max2: "max_local_marker_depth_per_command_buffer recording2 = 2"
    by (simp add: recording2_def)
  have deep2: "local_marker_stack_size state2 + 1 > 2"
    by (simp add: state2_def)
  from marker_slots_and_depth_filter [OF rec2, of "''C''" red_color _ _ True] max2 deep2
  have f3: "MarkDebugMarkerBegin True 7 ''C'' red_color recording2 = Inr recording3"
    by (simp add: recording3_def state3_def)
  have g: "map slot_index (markers state3) = [Some 2, Some 1, None]"
    "local_marker_stack_size state3 = 3"
    "timer_query_pool recording3 = timer_query_pool recording2"
    by (simp_all add: state3_def state2_def recording3_def)
  have rec3: "command_buffer_to_state recording3 7 = Some state3"
    by (simp add: recording3_def)
  have max3: "max_local_marker_depth_per_command_buffer recording3 = 2"
    by (simp add: recording3_def recording2_def)
  have deep3: "local_marker_stack_size state3 > 2"
    by (simp add: state3_def state2_def)
  from marker_slots_and_depth_filter [OF rec3, of "''C''" red_color _ _ True] max3 deep3
  have "MarkDebugMarkerEnd True 7 recording3 =
        Inr (recording3\<lparr>command_buffer_to_state := (command_buffer_to_state recording3)
               (7 \<mapsto> state3\<lparr>markers := markers state3 @
                             [\<lparr>type = kDebugMarkerEnd, slot_index = None,
                               marker_text = None, marker_color = None\<rparr>],
                           local_marker_stack_size :=
                             (if local_marker_stack_size state3 = 0 then 0
                              else local_marker_stack_size state3 - 1)\<rparr>)\<rparr>)"
    by simp
  then have h: "\<exists>s'. MarkDebugMarkerEnd True 7 recording3 = Inr s' \<and>
      timer_query_pool s' = timer_query_pool recording2 \<and>
      (case command_buffer_to_state s' 7 of
         None \<Rightarrow> False
       | Some st \<Rightarrow> map slot_index (markers st) = [Some 2, Some 1, None, None] \<and>
                   local_marker_stack_size st = 2)"
    by (simp add: g state3_def state2_def recording3_def)
  from rec0 free0 slots0 okb b1 b2 b3 oke e1 e2 e3 rec2 f3 g h show ?thesis by blast
qed

subsection \<open>Resetting a command buffer\<close>

lemma samples_reached:
  "run_hooks [Track 1 1 [7], BeginRecording False 7] tracker0 = Inr recording0"
  "run_hooks [Track 1 1 [7], BeginRecording True 7] tracker0 = Inr begun7"
  "run_hooks [Track 1 1 [7], BeginRecording True 7, EndRecording True 7] tracker0 = Inr ended7"
  "run_hooks [Track 1 1 [7], BeginRecording True 7, BeginMarker True 7 ''A'' red_color,
              BeginMarker True 7 ''B'' red_color] (new_SubmissionTracker 2 pool4) =
     Inr recording2"
  by (simp_all add: hook_defs tracker0_def pool4_def begun7_def ended7_def recording0_def
      recording2_def state2_def numeral_eq_Suc)

lemma set_gather_slots:
  "set (gather_slots state) =
     set (option_list (command_buffer_begin_slot_index state)) \<union>
     set (option_list (command_buffer_end_slot_index state)) \<union>
     {i. \<exists>marker\<in>set (markers state). slot_index marker = Some i}"
  by (auto simp: gather_slots_def option_list_def split: option.splits)


text \<open>
  Claim C8. \<open>ResetCommandBuffer\<close> on a buffer without a record returns the tracker
  unchanged. On a buffer with a record, when it returns, it has handed the slots the
  record references (begin slot, end slot and every marker slot) to
  \<open>RollbackPendingQuerySlots\<close> on the buffer's device and erased the record, and nothing
  else of the tracker has changed: the slots were pending and are ready, they are
  appended to the free list, and no driver call was made. \<open>ResetQuerySlots\<close> on the same
  pool and slots gives the same pool but for the log, which then holds one single-slot
  reset per slot.
\<close>

theorem reset_command_buffer_rolls_back:
  "(command_buffer_to_state s cb = None \<longrightarrow> ResetCommandBuffer cb s = Inr s) \<and>
   (command_buffer_to_state s cb = Some state \<longrightarrow> ResetCommandBuffer cb s = Inr s' \<longrightarrow>
      (\<exists>device.
         command_buffer_to_device s cb = Some device \<and>
         RollbackPendingQuerySlots device (gather_slots state) (timer_query_pool s) =
           Inr (timer_query_pool s') \<and>
         s' = s\<lparr>timer_query_pool := timer_query_pool s',
                command_buffer_to_state := (command_buffer_to_state s)(cb := None)\<rparr> \<and>
         set (gather_slots state) =
           set (option_list (command_buffer_begin_slot_index state)) \<union>
           set (option_list (command_buffer_end_slot_index state)) \<union>
           {i. \<exists>marker\<in>set (markers state). slot_index marker = Some i} \<and>
         dispatch_calls (timer_query_pool s') = dispatch_calls (timer_query_pool s) \<and>
         (gather_slots state \<noteq> [] \<longrightarrow>
            (\<exists>slot_states free_slots slot_states'.
               device_to_query_slots (timer_query_pool s) device = Some slot_states \<and>
               device_to_free_slots (timer_query_pool s) device = Some free_slots \<and>
               device_to_query_slots (timer_query_pool s') device = Some slot_states' \<and>
               device_to_free_slots (timer_query_pool s') device =
                 Some (free_slots @ gather_slots state) \<and>
               (\<forall>i\<in>set (gather_slots state).
                  slot_states ! i = kQueryPendingOnGpu \<and>
                  slot_states' ! i = kReadyForQueryIssue))) \<and>
         (\<forall>qp. device_to_query_pool (timer_query_pool s) device = Some qp \<longrightarrow>
            ResetQuerySlots device (gather_slots state) (timer_query_pool s) =
              Inr ((timer_query_pool s')
                     \<lparr>dispatch_calls := dispatch_calls (timer_query_pool s) @
                        map (\<lambda>i. ResetQueryPoolEXT device qp i 1) (gather_slots state)\<rparr>))))"
proof (intro conjI impI)
  assume "command_buffer_to_state s cb = None"
  then show "ResetCommandBuffer cb s = Inr s" by (simp add: ResetCommandBuffer_def)
next
  assume rec: "command_buffer_to_state s cb = Some state"
    and ok: "ResetCommandBuffer cb s = Inr s'"
  from rec ok obtain device p' where
    dev: "command_buffer_to_device s cb = Some device" and
    rb: "RollbackPendingQuerySlots device (gather_slots state) (timer_query_pool s) = Inr p'" and
    s': "s' = s\<lparr>timer_query_pool := p',
                command_buffer_to_state := (command_buffer_to_state s)(cb := None)\<rparr>"
    by (auto simp: ResetCommandBuffer_def split: option.splits sum.splits)
  from s' have p': "timer_query_pool s' = p'" by simp
  have calls: "dispatch_calls p' = dispatch_calls (timer_query_pool s)"
  proof (cases "gather_slots state = []")
    case True
    with rb show ?thesis
      by (simp add: RollbackPendingQuerySlots_def ResetQuerySlotsInternal_def)
  next
    case False
    from ResetQuerySlotsInternal_effect [OF rb [unfolded RollbackPendingQuerySlots_def] False]
    show ?thesis by auto
  qed
  have slots: "gather_slots state \<noteq> [] \<longrightarrow>
            (\<exists>slot_states free_slots slot_states'.
               device_to_query_slots (timer_query_pool s) device = Some slot_states \<and>
               device_to_free_slots (timer_query_pool s) device = Some free_slots \<and>
               device_to_query_slots p' device = Some slot_states' \<and>
               device_to_free_slots p' device = Some (free_slots @ gather_slots state) \<and>
               (\<forall>i\<in>set (gather_slots state).
                  slot_states ! i = kQueryPendingOnGpu \<and>
                  slot_states' ! i = kReadyForQueryIssue))"
  proof
    assume ne: "gather_slots state \<noteq> []"
    from ResetQuerySlotsInternal_effect [OF rb [unfolded RollbackPendingQuerySlots_def] ne]
    show "\<exists>slot_states free_slots slot_states'.
               device_to_query_slots (timer_query_pool s) device = Some slot_states \<and>
               device_to_free_slots (timer_query_pool s) device = Some free_slots \<and>
               device_to_query_slots p' device = Some slot_states' \<and>
               device_to_free_slots p' device = Some (free_slots @ gather_slots state) \<and>
               (\<forall>i\<in>set (gather_slots state).
                  slot_states ! i = kQueryPendingOnGpu \<and>
                  slot_states' ! i = kReadyForQueryIssue)"
      by blast
  qed
  have same: "\<forall>qp. device_to_query_pool (timer_query_pool s) device = Some qp \<longrightarrow>
            ResetQuerySlots device (gather_slots state) (timer_query_pool s) =
              Inr (p'\<lparr>dispatch_calls := dispatch_calls (timer_query_pool s) @
                        map (\<lambda>i. ResetQueryPoolEXT device qp i 1) (gather_slots state)\<rparr>)"
    using Rollback_same_bookkeeping [OF rb] by blast
  from dev rb s' calls slots same set_gather_slots [of state]
  show "\<exists>device.
         command_buffer_to_device s cb = Some device \<and>
         RollbackPendingQuerySlots device (gather_slots state) (timer_query_pool s) =
           Inr (timer_query_pool s') \<and>
         s' = s\<lparr>timer_query_pool := timer_query_pool s',
                command_buffer_to_state := (command_buffer_to_state s)(cb := None)\<rparr> \<and>
         set (gather_slots state) =
           set (option_list (command_buffer_begin_slot_index state)) \<union>
           set (option_list (command_buffer_end_slot_index state)) \<union>
           {i. \<exists>marker\<in>set (markers state). slot_index marker = Some i} \<and>
         dispatch_calls (timer_query_pool s') = dispatch_calls (timer_query_pool s) \<and>
         (gather_slots state \<noteq> [] \<longrightarrow>
            (\<exists>slot_states free_slots slot_states'.
               device_to_query_slots (timer_query_pool s) device = Some slot_states \<and>
               device_to_free_slots (timer_query_pool s) device = Some free_slots \<and>
               device_to_query_slots (timer_query_pool s') device = Some slot_states' \<and>
               device_to_free_slots (timer_query_pool s') device =
                 Some (free_slots @ gather_slots state) \<and>
               (\<forall>i\<in>set (gather_slots state).
                  slot_states ! i = kQueryPendingOnGpu \<and>
                  slot_states' ! i = kReadyForQueryIssue))) \<and>
         (\<forall>qp. device_to_query_pool (timer_query_pool s) device = Some qp \<longrightarrow>
            ResetQuerySlots device (gather_slots state) (timer_query_pool s) =
              Inr ((timer_query_pool s')
                     \<lparr>dispatch_calls := dispatch_calls (timer_query_pool s) @
                        map (\<lambda>i. ResetQueryPoolEXT device qp i 1) (gather_slots state)\<rparr>))"
    unfolding p' by (intro exI [of _ device] conjI) simp_all
qed


theorem reset_command_buffer_rolls_back_witness:
  "ResetCommandBuffer 8 begun7 = Inr begun7 \<and>
   command_buffer_to_state begun7 7 =
     Some (empty_CommandBufferState\<lparr>command_buffer_begin_slot_index := Some 3\<rparr>) \<and>
   (\<exists>s'. ResetCommandBuffer 7 begun7 = Inr s' \<and>
      command_buffer_to_state s' 7 = None \<and>
      dispatch_calls (timer_query_pool s') =
        [CmdWriteTimestamp 7 VK_PIPELINE_STAGE_TOP_OF_PIPE_BIT 9 3] \<and>
      device_to_free_slots (timer_query_pool s') 1 = Some [0, 1, 2, 3])"
proof -
  let ?st = "empty_CommandBufferState\<lparr>command_buffer_begin_slot_index := Some 3\<rparr>"
  have none8: "command_buffer_to_state begun7 8 = None"
    by (simp add: begun7_def)
  have rec: "command_buffer_to_state begun7 7 = Some ?st"
    by (simp add: begun7_def)
  have g: "gather_slots ?st = [3]"
    by (simp add: gather_slots_def option_list_def empty_CommandBufferState_def)
  have dev: "command_buffer_to_device begun7 7 = Some 1"
    by (simp add: begun7_def recording0_def)
  have calls: "dispatch_calls (timer_query_pool begun7) =
      [CmdWriteTimestamp 7 VK_PIPELINE_STAGE_TOP_OF_PIPE_BIT 9 3]"
    by (simp add: begun7_def)
  have free: "device_to_free_slots (timer_query_pool begun7) 1 = Some [0, 1, 2]"
    by (simp add: begun7_def)
  have "\<exists>s'. ResetCommandBuffer 7 begun7 = Inr s'"
    by (simp add: hook_defs begun7_def recording0_def tracker0_def pool4_def)
  then obtain s' where ok: "ResetCommandBuffer 7 begun7 = Inr s'" by blast
  note thm8 = reset_command_buffer_rolls_back [of begun7 8 ?st s']
  note thm7 = reset_command_buffer_rolls_back [of begun7 7 ?st s']
  from thm8 none8 have a: "ResetCommandBuffer 8 begun7 = Inr begun7" by blast
  from thm7 rec ok obtain device where
    d: "command_buffer_to_device begun7 7 = Some device" and
    eq: "s' = begun7\<lparr>timer_query_pool := timer_query_pool s',
                command_buffer_to_state := (command_buffer_to_state begun7)(7 := None)\<rparr>" and
    c: "dispatch_calls (timer_query_pool s') = dispatch_calls (timer_query_pool begun7)" and
    f: "gather_slots ?st \<noteq> [] \<longrightarrow>
            (\<exists>slot_states free_slots slot_states'.
               device_to_query_slots (timer_query_pool begun7) device = Some slot_states \<and>
               device_to_free_slots (timer_query_pool begun7) device = Some free_slots \<and>
               device_to_query_slots (timer_query_pool s') device = Some slot_states' \<and>
               device_to_free_slots (timer_query_pool s') device =
                 Some (free_slots @ gather_slots ?st) \<and>
               (\<forall>i\<in>set (gather_slots ?st).
                  slot_states ! i = kQueryPendingOnGpu \<and>
                  slot_states' ! i = kReadyForQueryIssue))"
    by blast
  from d dev have device: "device = 1" by simp
  have "command_buffer_to_state s' = (command_buffer_to_state begun7)(7 := None)"
    by (subst eq) simp
  then have b1: "command_buffer_to_state s' 7 = None" by simp
  from f g free device
  have b3: "device_to_free_slots (timer_query_pool s') 1 = Some [0, 1, 2, 3]" by auto
  from b1 c calls b3
  have b: "command_buffer_to_state s' 7 = None \<and>
      dispatch_calls (timer_query_pool s') =
        [CmdWriteTimestamp 7 VK_PIPELINE_STAGE_TOP_OF_PIPE_BIT 9 3] \<and>
      device_to_free_slots (timer_query_pool s') 1 = Some [0, 1, 2, 3]"
    by simp
  from a rec ok b show ?thesis by blast
qed

subsection \<open>Post-submit while not capturing\<close>

lemma referenced_slots_iff:
  "x \<in> referenced_slots to_state cbs \<longleftrightarrow>
     (\<exists>cb\<in>set cbs. \<exists>state. to_state cb = Some state \<and> x \<in> set (gather_slots state))"
  by (auto simp: referenced_slots_def split: option.splits)

lemma referenced_slots_Cons_None:
  "to_state cb = None \<Longrightarrow>
   referenced_slots to_state (cb # rest) = referenced_slots to_state rest"
  by (auto simp: referenced_slots_iff)

lemma referenced_slots_Cons_Some:
  assumes "to_state cb = Some state"
  shows "referenced_slots to_state (cb # rest) =
         set (gather_slots state) \<union> referenced_slots (to_state(cb := None)) rest"
proof (rule set_eqI)
  fix x
  show "x \<in> referenced_slots to_state (cb # rest) \<longleftrightarrow>
        x \<in> set (gather_slots state) \<union> referenced_slots (to_state(cb := None)) rest"
    unfolding Un_iff referenced_slots_iff using assms
    by (metis fun_upd_apply option.distinct(1) option.inject set_ConsD list.set_intros(1,2))
qed

lemma referenced_slots_append:
  "referenced_slots to_state (cbs @ cbs') =
   referenced_slots to_state cbs \<union>
   referenced_slots (\<lambda>cb. if cb \<in> set cbs then None else to_state cb) cbs'"
proof (rule set_eqI)
  fix x
  show "x \<in> referenced_slots to_state (cbs @ cbs') \<longleftrightarrow>
        x \<in> referenced_slots to_state cbs \<union>
            referenced_slots (\<lambda>cb. if cb \<in> set cbs then None else to_state cb) cbs'"
    unfolding Un_iff referenced_slots_iff set_append
    by (metis Un_iff option.distinct(1))
qed

lemma reset_command_buffers_effect:
  "reset_command_buffers to_device cbs (device, reset_slots, to_state) =
     Inr (device', reset_slots', to_state') \<Longrightarrow>
   to_state' = (\<lambda>cb. if cb \<in> set cbs then None else to_state cb) \<and>
   (\<exists>extra. reset_slots' = reset_slots @ extra \<and>
      set extra = referenced_slots to_state cbs)"
proof (induction cbs arbitrary: device reset_slots to_state)
  case Nil
  then show ?case by (simp add: referenced_slots_def)
next
  case (Cons cb rest)
  from Cons.prems obtain d where
    d: "(if device = VK_NULL_HANDLE
         then (case to_device cb of None \<Rightarrow> Inl OutOfRange | Some d \<Rightarrow> Inr d)
         else Inr device) = Inr d"
    by (auto split: sum.splits)
  show ?case
  proof (cases "to_state cb")
    case None
    with Cons.prems d have
      "reset_command_buffers to_device rest (d, reset_slots, to_state) =
         Inr (device', reset_slots', to_state')"
      by simp
    from Cons.IH [OF this] None show ?thesis
      by (auto simp: fun_eq_iff referenced_slots_Cons_None)
  next
    case (Some state)
    with Cons.prems d have
      "reset_command_buffers to_device rest
         (d, reset_slots @ gather_slots state, to_state(cb := None)) =
       Inr (device', reset_slots', to_state')"
      by simp
    from Cons.IH [OF this] obtain extra where
      ts: "to_state' = (\<lambda>c. if c \<in> set rest then None else (to_state(cb := None)) c)" and
      rs: "reset_slots' = (reset_slots @ gather_slots state) @ extra" and
      ex: "set extra = referenced_slots (to_state(cb := None)) rest"
      by blast
    from ts have "to_state' = (\<lambda>c. if c \<in> set (cb # rest) then None else to_state c)"
      by (auto simp: fun_eq_iff)
    moreover from rs have "reset_slots' = reset_slots @ (gather_slots state @ extra)" by simp
    moreover from ex have
      "set (gather_slots state @ extra) = referenced_slots to_state (cb # rest)"
      using referenced_slots_Cons_Some [of to_state cb state rest] Some by simp
    ultimately show ?thesis by blast
  qed
qed

lemma reset_submits_effect:
  "reset_submits to_device submits (device, reset_slots, to_state) =
     Inr (device', reset_slots', to_state') \<Longrightarrow>
   to_state' = (\<lambda>cb. if cb \<in> set (concat submits) then None else to_state cb) \<and>
   (\<exists>extra. reset_slots' = reset_slots @ extra \<and>
      set extra = referenced_slots to_state (concat submits))"
proof (induction submits arbitrary: device reset_slots to_state)
  case Nil
  then show ?case by (simp add: referenced_slots_def)
next
  case (Cons submit_info rest)
  from Cons.prems obtain d1 rs1 ts1 where
    first: "reset_command_buffers to_device submit_info (device, reset_slots, to_state) =
              Inr (d1, rs1, ts1)" and
    more: "reset_submits to_device rest (d1, rs1, ts1) = Inr (device', reset_slots', to_state')"
    by (auto split: sum.splits)
  from reset_command_buffers_effect [OF first] obtain extra1 where
    ts1: "ts1 = (\<lambda>cb. if cb \<in> set submit_info then None else to_state cb)" and
    rs1: "rs1 = reset_slots @ extra1" and
    ex1: "set extra1 = referenced_slots to_state submit_info"
    by blast
  from Cons.IH [OF more] obtain extra2 where
    ts2: "to_state' = (\<lambda>cb. if cb \<in> set (concat rest) then None else ts1 cb)" and
    rs2: "reset_slots' = rs1 @ extra2" and
    ex2: "set extra2 = referenced_slots ts1 (concat rest)"
    by blast
  from ts1 ts2 have
    "to_state' = (\<lambda>cb. if cb \<in> set (concat (submit_info # rest)) then None else to_state cb)"
    by (auto simp: fun_eq_iff)
  moreover from rs1 rs2 have "reset_slots' = reset_slots @ (extra1 @ extra2)" by simp
  moreover have "set (extra1 @ extra2) =
      referenced_slots to_state (concat (submit_info # rest))"
    unfolding set_append ex1 ex2 ts1
    by (simp add: referenced_slots_append)
  ultimately show ?case by blast
qed

lemma reset_command_buffers_returns:
  "\<forall>cb\<in>set cbs. to_device cb \<noteq> None \<Longrightarrow>
   \<exists>st'. reset_command_buffers to_device cbs (device, reset_slots, to_state) = Inr st'"
proof (induction cbs arbitrary: device reset_slots to_state)
  case Nil
  then show ?case by simp
next
  case (Cons cb rest)
  from Cons.prems obtain d where "to_device cb = Some d" by auto
  with Cons.IH Cons.prems show ?case
    by (cases "to_state cb") auto
qed

lemma reset_submits_returns:
  "\<forall>cb\<in>set (concat submits). to_device cb \<noteq> None \<Longrightarrow>
   \<exists>st'. reset_submits to_device submits (device, reset_slots, to_state) = Inr st'"
proof (induction submits arbitrary: device reset_slots to_state)
  case Nil
  then show ?case by simp
next
  case (Cons submit_info rest)
  from Cons.prems have "\<forall>cb\<in>set submit_info. to_device cb \<noteq> None" by simp
  from reset_command_buffers_returns [OF this] obtain d1 rs1 ts1 where
    "reset_command_buffers to_device submit_info (device, reset_slots, to_state) =
       Inr (d1, rs1, ts1)"
    by (metis prod_cases3)
  moreover from Cons.prems have "\<forall>cb\<in>set (concat rest). to_device cb \<noteq> None" by simp
  from Cons.IH [OF this] obtain st2 where
    "reset_submits to_device rest (d1, rs1, ts1) = Inr st2" by blast
  ultimately show ?case by (simp del: split_paired_Ex)
qed

lemma DoPostSubmitQueue_regime:
  "\<not> capturing \<or> pre_submit_timestamp = None \<Longrightarrow>
   DoPostSubmitQueue capturing tid now queue submits pre_submit_timestamp s =
     DoPostSubmitQueue_not_capturing submits s"
  by (auto simp: DoPostSubmitQueue_def split: option.splits)

lemma not_capturing_no_record:
  assumes none: "\<forall>cb\<in>set (concat submits). command_buffer_to_state s cb = None"
    and ok: "DoPostSubmitQueue_not_capturing submits s = Inr s'"
  shows "s' = s"
proof (cases "command_buffer_to_state s = Map.empty")
  case True
  with ok show ?thesis by (simp add: DoPostSubmitQueue_not_capturing_def)
next
  case False
  with ok obtain device reset_slots to_state where
    loop: "reset_submits (command_buffer_to_device s) submits
             (VK_NULL_HANDLE, [], command_buffer_to_state s) = Inr (device, reset_slots, to_state)"
    by (auto simp: DoPostSubmitQueue_not_capturing_def split: sum.splits)
  from reset_submits_effect [OF loop] obtain extra where
    ts: "to_state = (\<lambda>cb. if cb \<in> set (concat submits) then None
                          else command_buffer_to_state s cb)" and
    rs: "reset_slots = [] @ extra" and
    ex: "set extra = referenced_slots (command_buffer_to_state s) (concat submits)"
    by blast
  from none have "referenced_slots (command_buffer_to_state s) (concat submits) = {}"
    by (auto simp: referenced_slots_iff)
  with ex rs have rs0: "reset_slots = []" by simp
  from ts none have "to_state = command_buffer_to_state s"
    by (auto simp: fun_eq_iff)
  with ok False loop rs0 show ?thesis
    by (simp add: DoPostSubmitQueue_not_capturing_def)
qed

lemma not_capturing_returns:
  assumes none: "\<forall>cb\<in>set (concat submits).
                   command_buffer_to_state s cb = None \<and> command_buffer_to_device s cb \<noteq> None"
  shows "DoPostSubmitQueue_not_capturing submits s = Inr s"
proof (cases "command_buffer_to_state s = Map.empty")
  case True
  then show ?thesis by (simp add: DoPostSubmitQueue_not_capturing_def)
next
  case False
  from none have "\<forall>cb\<in>set (concat submits). command_buffer_to_device s cb \<noteq> None" by blast
  from reset_submits_returns [OF this] obtain device reset_slots to_state where
    loop: "reset_submits (command_buffer_to_device s) submits
             (VK_NULL_HANDLE, [], command_buffer_to_state s) = Inr (device, reset_slots, to_state)"
    by (metis prod_cases3)
  from reset_submits_effect [OF loop] obtain extra where
    ts: "to_state = (\<lambda>cb. if cb \<in> set (concat submits) then None
                          else command_buffer_to_state s cb)" and
    rs: "reset_slots = [] @ extra" and
    ex: "set extra = referenced_slots (command_buffer_to_state s) (concat submits)"
    by blast
  from none have "referenced_slots (command_buffer_to_state s) (concat submits) = {}"
    by (auto simp: referenced_slots_iff)
  with ex rs have rs0: "reset_slots = []" by simp
  from ts none have "to_state = command_buffer_to_state s"
    by (auto simp: fun_eq_iff)
  with False loop rs0 show ?thesis
    by (simp add: DoPostSubmitQueue_not_capturing_def)
qed

lemma reset_command_buffers_device_kept:
  "reset_command_buffers to_device cbs (device, reset_slots, to_state) =
     Inr (device', reset_slots', to_state') \<Longrightarrow>
   device \<noteq> VK_NULL_HANDLE \<Longrightarrow> device' = device"
proof (induction cbs arbitrary: reset_slots to_state)
  case Nil
  then show ?case by simp
next
  case (Cons cb rest)
  show ?case
  proof (cases "to_state cb")
    case None
    with Cons.prems have
      "reset_command_buffers to_device rest (device, reset_slots, to_state) =
         Inr (device', reset_slots', to_state')"
      by simp
    from Cons.IH [OF this Cons.prems(2)] show ?thesis .
  next
    case (Some state)
    with Cons.prems have
      "reset_command_buffers to_device rest
         (device, reset_slots @ gather_slots state, to_state(cb := None)) =
       Inr (device', reset_slots', to_state')"
      by simp
    from Cons.IH [OF this Cons.prems(2)] show ?thesis .
  qed
qed

lemma reset_submits_device_kept:
  "reset_submits to_device submits (device, reset_slots, to_state) =
     Inr (device', reset_slots', to_state') \<Longrightarrow>
   device \<noteq> VK_NULL_HANDLE \<Longrightarrow> device' = device"
proof (induction submits arbitrary: reset_slots to_state)
  case Nil
  then show ?case by simp
next
  case (Cons submit_info rest)
  from Cons.prems(1) obtain d1 rs1 ts1 where
    first: "reset_command_buffers to_device submit_info (device, reset_slots, to_state) =
              Inr (d1, rs1, ts1)" and
    more: "reset_submits to_device rest (d1, rs1, ts1) = Inr (device', reset_slots', to_state')"
    by (auto split: sum.splits)
  from reset_command_buffers_device_kept [OF first Cons.prems(2)] have "d1 = device" .
  with more Cons.IH Cons.prems(2) show ?case by blast
qed

lemma reset_command_buffers_first_device:
  assumes ok: "reset_command_buffers to_device (cb # rest) (VK_NULL_HANDLE, reset_slots, to_state) =
             Inr (device', reset_slots', to_state')"
    and d: "to_device cb = Some d" and nz: "d \<noteq> VK_NULL_HANDLE"
  shows "device' = d"
proof (cases "to_state cb")
  case None
  with ok d have
    "reset_command_buffers to_device rest (d, reset_slots, to_state) =
       Inr (device', reset_slots', to_state')"
    by simp
  from reset_command_buffers_device_kept [OF this nz] show ?thesis .
next
  case (Some state)
  with ok d have
    "reset_command_buffers to_device rest
       (d, reset_slots @ gather_slots state, to_state(cb := None)) =
     Inr (device', reset_slots', to_state')"
    by simp
  from reset_command_buffers_device_kept [OF this nz] show ?thesis .
qed

lemma reset_submits_first_device:
  "reset_submits to_device submits (VK_NULL_HANDLE, reset_slots, to_state) =
     Inr (device', reset_slots', to_state') \<Longrightarrow>
   concat submits = cb # rest \<Longrightarrow> to_device cb = Some d \<Longrightarrow> d \<noteq> VK_NULL_HANDLE \<Longrightarrow>
   device' = d"
proof (induction submits arbitrary: reset_slots to_state)
  case Nil
  then show ?case by simp
next
  case (Cons submit_info more)
  show ?case
  proof (cases submit_info)
    case Nil
    with Cons.prems(1) have
      "reset_submits to_device more (VK_NULL_HANDLE, reset_slots, to_state) =
         Inr (device', reset_slots', to_state')"
      by simp
    moreover from Nil Cons.prems(2) have "concat more = cb # rest" by simp
    ultimately show ?thesis using Cons.IH Cons.prems(3,4) by blast
  next
    case (Cons c cs)
    with Cons.prems(2) have c: "c = cb" by simp
    from Cons.prems(1) obtain d1 rs1 ts1 where
      first: "reset_command_buffers to_device submit_info
                (VK_NULL_HANDLE, reset_slots, to_state) = Inr (d1, rs1, ts1)" and
      rest: "reset_submits to_device more (d1, rs1, ts1) =
               Inr (device', reset_slots', to_state')"
      by (auto split: sum.splits)
    from first Cons c have
      "reset_command_buffers to_device (cb # cs) (VK_NULL_HANDLE, reset_slots, to_state) =
         Inr (d1, rs1, ts1)"
      by simp
    from reset_command_buffers_first_device [OF this Cons.prems(3,4)] have "d1 = d" .
    with rest reset_submits_device_kept Cons.prems(4) show ?thesis by blast
  qed
qed

lemma reset_submits_unregistered:
  "concat submits = cb # rest \<Longrightarrow> to_device cb = None \<Longrightarrow>
   reset_submits to_device submits (VK_NULL_HANDLE, reset_slots, to_state) = Inl OutOfRange"
proof (induction submits)
  case Nil
  then show ?case by simp
next
  case (Cons submit_info more)
  show ?case
  proof (cases submit_info)
    case Nil
    with Cons show ?thesis by simp
  next
    case (Cons c cs)
    with Cons.prems(1) have "c = cb" by simp
    with Cons Cons.prems(2) show ?thesis by simp
  qed
qed

text \<open>The slots of the referenced records, named by the fields that hold them.\<close>

lemma referenced_slots_fields:
  "referenced_slots to_state cbs =
     {i. \<exists>cb\<in>set cbs. \<exists>state. to_state cb = Some state \<and>
           (command_buffer_begin_slot_index state = Some i \<or>
            command_buffer_end_slot_index state = Some i \<or>
            (\<exists>marker\<in>set (markers state). slot_index marker = Some i))}"
proof (rule set_eqI)
  fix i
  have "i \<in> set (gather_slots state) \<longleftrightarrow>
          (command_buffer_begin_slot_index state = Some i \<or>
           command_buffer_end_slot_index state = Some i \<or>
           (\<exists>marker\<in>set (markers state). slot_index marker = Some i))" for state
    unfolding set_gather_slots by (auto simp: option_list_def split: option.splits)
  then show "i \<in> referenced_slots to_state cbs \<longleftrightarrow>
        i \<in> {i. \<exists>cb\<in>set cbs. \<exists>state. to_state cb = Some state \<and>
           (command_buffer_begin_slot_index state = Some i \<or>
            command_buffer_end_slot_index state = Some i \<or>
            (\<exists>marker\<in>set (markers state). slot_index marker = Some i))}"
    unfolding referenced_slots_iff by simp
qed

lemma not_capturing_effect:
  assumes ok: "DoPostSubmitQueue_not_capturing submits s = Inr s'"
  shows "command_buffer_to_state s' =
           (\<lambda>cb. if cb \<in> set (concat submits) then None else command_buffer_to_state s cb) \<and>
         s' = s\<lparr>command_buffer_to_state := command_buffer_to_state s',
                timer_query_pool := timer_query_pool s'\<rparr> \<and>
         (\<exists>reset_slots device.
            set reset_slots = referenced_slots (command_buffer_to_state s) (concat submits) \<and>
            (reset_slots = [] \<longrightarrow> timer_query_pool s' = timer_query_pool s) \<and>
            (reset_slots \<noteq> [] \<longrightarrow>
               (\<forall>cb rest d. concat submits = cb # rest \<longrightarrow>
                  command_buffer_to_device s cb = Some d \<longrightarrow> d \<noteq> VK_NULL_HANDLE \<longrightarrow>
                  device = d) \<and>
               ResetQuerySlots device reset_slots (timer_query_pool s) =
                 Inr (timer_query_pool s')))"
proof (cases "command_buffer_to_state s = Map.empty")
  case True
  with ok have s': "s' = s" by (simp add: DoPostSubmitQueue_not_capturing_def)
  from True have "referenced_slots (command_buffer_to_state s) (concat submits) = {}"
    by (simp add: referenced_slots_def)
  then have "set [] = referenced_slots (command_buffer_to_state s) (concat submits)" by simp
  moreover from True have "command_buffer_to_state s =
           (\<lambda>cb. if cb \<in> set (concat submits) then None else command_buffer_to_state s cb)"
    by (simp add: fun_eq_iff)
  ultimately show ?thesis unfolding s' by auto
next
  case False
  with ok obtain device reset_slots to_state where
    loop: "reset_submits (command_buffer_to_device s) submits
             (VK_NULL_HANDLE, [], command_buffer_to_state s) = Inr (device, reset_slots, to_state)"
    by (auto simp: DoPostSubmitQueue_not_capturing_def split: sum.splits)
  from reset_submits_effect [OF loop] have
    ts: "to_state = (\<lambda>cb. if cb \<in> set (concat submits) then None
                          else command_buffer_to_state s cb)" and
    rs: "set reset_slots = referenced_slots (command_buffer_to_state s) (concat submits)"
    by auto
  have dv: "\<forall>cb rest d. concat submits = cb # rest \<longrightarrow>
                  command_buffer_to_device s cb = Some d \<longrightarrow> d \<noteq> VK_NULL_HANDLE \<longrightarrow>
                  device = d"
    using reset_submits_first_device [OF loop] by blast
  show ?thesis
  proof (cases "reset_slots = []")
    case True
    with ok False loop have s': "s' = s\<lparr>command_buffer_to_state := to_state\<rparr>"
      by (simp add: DoPostSubmitQueue_not_capturing_def)
    have a: "command_buffer_to_state s' = to_state" by (simp add: s')
    have b: "s' = s\<lparr>command_buffer_to_state := command_buffer_to_state s',
                timer_query_pool := timer_query_pool s'\<rparr>"
      by (simp add: s')
    have c: "timer_query_pool s' = timer_query_pool s" by (simp add: s')
    from a b c ts rs True show ?thesis by blast
  next
    case ne: False
    with ok False loop obtain p' where
      rq: "ResetQuerySlots device reset_slots (timer_query_pool s) = Inr p'" and
      s': "s' = s\<lparr>command_buffer_to_state := to_state, timer_query_pool := p'\<rparr>"
      by (auto simp: DoPostSubmitQueue_not_capturing_def Let_def split: sum.splits)
    have a: "command_buffer_to_state s' = to_state" by (simp add: s')
    have b: "s' = s\<lparr>command_buffer_to_state := command_buffer_to_state s',
                timer_query_pool := timer_query_pool s'\<rparr>"
      by (simp add: s')
    have c: "timer_query_pool s' = p'" by (simp add: s')
    from a b c ts rs ne rq dv show ?thesis by blast
  qed
qed

lemma not_capturing_unregistered:
  assumes "command_buffer_to_state s \<noteq> Map.empty"
    and "concat submits = cb # rest" and "command_buffer_to_device s cb = None"
  shows "DoPostSubmitQueue_not_capturing submits s = Inl OutOfRange"
  using assms reset_submits_unregistered [of submits cb rest "command_buffer_to_device s"]
  by (simp add: DoPostSubmitQueue_not_capturing_def)

text \<open>
  Claim C7, as stated, at a concrete input: command buffer \<open>7\<close> has a record, command
  buffer \<open>8\<close> has none and is registered with no device. The not-capturing post-submit of
  \<open>8\<close> references no buffer with a record, yet it does not return: the device of the
  first referenced buffer is looked up with \<open>at\<close> before its record is tested.
\<close>

theorem post_submit_unregistered_buffer_throws:
  "command_buffer_to_state ended7 8 = None \<and>
   DoPostSubmitQueue False 5 101 3 [[8]] None ended7 = Inl OutOfRange"
  by (simp add: hook_defs ended7_def recording0_def tracker0_def pool4_def)

text \<open>
  Claim C7, amended. In the regime where capture is off or the pre-submit timestamp is
  absent, \<open>DoPostSubmitQueue\<close> returns the tracker unchanged when there is no record at
  all, and when no referenced command buffer has a record and each is registered with a
  device; when records exist and the first referenced buffer is registered with no
  device, the call throws. Whenever the call returns: the records of the referenced
  command buffers are erased and no other record is; the slots released are exactly the
  begin slots, end slots and marker slots present in those records; they are released
  through \<open>ResetQuerySlots\<close> on the device of the first referenced buffer: each was
  pending and is ready, they are appended to the free list, and one single-slot hardware
  reset per slot is issued; the queues' marker stacks and the in-flight submissions (the
  only source of capture events) are as before, and so is everything else in the
  tracker; and if no referenced buffer has a record, nothing has changed.
\<close>

theorem post_submit_not_capturing:
  assumes regime: "\<not> capturing \<or> pre_submit_timestamp = None"
  shows
   "(command_buffer_to_state s = Map.empty \<longrightarrow>
       DoPostSubmitQueue capturing tid now queue submits pre_submit_timestamp s = Inr s) \<and>
    ((\<forall>cb\<in>set (concat submits).
        command_buffer_to_state s cb = None \<and> command_buffer_to_device s cb \<noteq> None) \<longrightarrow>
       DoPostSubmitQueue capturing tid now queue submits pre_submit_timestamp s = Inr s) \<and>
    (command_buffer_to_state s \<noteq> Map.empty \<and>
     (\<exists>cb rest. concat submits = cb # rest \<and> command_buffer_to_device s cb = None) \<longrightarrow>
       DoPostSubmitQueue capturing tid now queue submits pre_submit_timestamp s =
         Inl OutOfRange) \<and>
    (DoPostSubmitQueue capturing tid now queue submits pre_submit_timestamp s = Inr s' \<longrightarrow>
       command_buffer_to_state s' =
         (\<lambda>cb. if cb \<in> set (concat submits) then None else command_buffer_to_state s cb) \<and>
       s' = s\<lparr>command_buffer_to_state := command_buffer_to_state s',
              timer_query_pool := timer_query_pool s'\<rparr> \<and>
       queue_to_markers s' = queue_to_markers s \<and>
       queue_to_submissions s' = queue_to_submissions s \<and>
       (\<exists>reset_slots device.
          set reset_slots =
            {i. \<exists>cb\<in>set (concat submits). \<exists>state.
                  command_buffer_to_state s cb = Some state \<and>
                  (command_buffer_begin_slot_index state = Some i \<or>
                   command_buffer_end_slot_index state = Some i \<or>
                   (\<exists>marker\<in>set (markers state). slot_index marker = Some i))} \<and>
          (reset_slots = [] \<longrightarrow> timer_query_pool s' = timer_query_pool s) \<and>
          (reset_slots \<noteq> [] \<longrightarrow>
             (\<forall>cb rest d. concat submits = cb # rest \<longrightarrow>
                command_buffer_to_device s cb = Some d \<longrightarrow> d \<noteq> VK_NULL_HANDLE \<longrightarrow>
                device = d) \<and>
             ResetQuerySlots device reset_slots (timer_query_pool s) =
               Inr (timer_query_pool s') \<and>
             (\<exists>qp slot_states free_slots slot_states'.
                device_to_query_pool (timer_query_pool s) device = Some qp \<and>
                device_to_query_slots (timer_query_pool s) device = Some slot_states \<and>
                device_to_free_slots (timer_query_pool s) device = Some free_slots \<and>
                device_to_query_slots (timer_query_pool s') device = Some slot_states' \<and>
                device_to_free_slots (timer_query_pool s') device =
                  Some (free_slots @ reset_slots) \<and>
                distinct reset_slots \<and>
                (\<forall>i\<in>set reset_slots.
                   slot_states ! i = kQueryPendingOnGpu \<and>
                   slot_states' ! i = kReadyForQueryIssue) \<and>
                (\<forall>i. i \<notin> set reset_slots \<longrightarrow> slot_states' ! i = slot_states ! i) \<and>
                dispatch_calls (timer_query_pool s') =
                  dispatch_calls (timer_query_pool s) @
                  map (\<lambda>i. ResetQueryPoolEXT device qp i 1) reset_slots))) \<and>
       ((\<forall>cb\<in>set (concat submits). command_buffer_to_state s cb = None) \<longrightarrow> s' = s))"
proof -
  note eq = DoPostSubmitQueue_regime [OF regime, of tid now queue submits s]
  have a: "command_buffer_to_state s = Map.empty \<longrightarrow>
       DoPostSubmitQueue capturing tid now queue submits pre_submit_timestamp s = Inr s"
    unfolding eq by (simp add: DoPostSubmitQueue_not_capturing_def)
  have b: "(\<forall>cb\<in>set (concat submits).
        command_buffer_to_state s cb = None \<and> command_buffer_to_device s cb \<noteq> None) \<longrightarrow>
       DoPostSubmitQueue capturing tid now queue submits pre_submit_timestamp s = Inr s"
    unfolding eq using not_capturing_returns by blast
  have t: "command_buffer_to_state s \<noteq> Map.empty \<and>
     (\<exists>cb rest. concat submits = cb # rest \<and> command_buffer_to_device s cb = None) \<longrightarrow>
       DoPostSubmitQueue capturing tid now queue submits pre_submit_timestamp s =
         Inl OutOfRange"
    unfolding eq using not_capturing_unregistered by blast
  have c: "command_buffer_to_state s' =
         (\<lambda>cb. if cb \<in> set (concat submits) then None else command_buffer_to_state s cb) \<and>
       s' = s\<lparr>command_buffer_to_state := command_buffer_to_state s',
              timer_query_pool := timer_query_pool s'\<rparr> \<and>
       queue_to_markers s' = queue_to_markers s \<and>
       queue_to_submissions s' = queue_to_submissions s \<and>
       (\<exists>reset_slots device.
          set reset_slots =
            {i. \<exists>cb\<in>set (concat submits). \<exists>state.
                  command_buffer_to_state s cb = Some state \<and>
                  (command_buffer_begin_slot_index state = Some i \<or>
                   command_buffer_end_slot_index state = Some i \<or>
                   (\<exists>marker\<in>set (markers state). slot_index marker = Some i))} \<and>
          (reset_slots = [] \<longrightarrow> timer_query_pool s' = timer_query_pool s) \<and>
          (reset_slots \<noteq> [] \<longrightarrow>
             (\<forall>cb rest d. concat submits = cb # rest \<longrightarrow>
                command_buffer_to_device s cb = Some d \<longrightarrow> d \<noteq> VK_NULL_HANDLE \<longrightarrow>
                device = d) \<and>
             ResetQuerySlots device reset_slots (timer_query_pool s) =
               Inr (timer_query_pool s') \<and>
             (\<exists>qp slot_states free_slots slot_states'.
                device_to_query_pool (timer_query_pool s) device = Some qp \<and>
                device_to_query_slots (timer_query_pool s) device = Some slot_states \<and>
                device_to_free_slots (timer_query_pool s) device = Some free_slots \<and>
                device_to_query_slots (timer_query_pool s') device = Some slot_states' \<and>
                device_to_free_slots (timer_query_pool s') device =
                  Some (free_slots @ reset_slots) \<and>
                distinct reset_slots \<and>
                (\<forall>i\<in>set reset_slots.
                   slot_states ! i = kQueryPendingOnGpu \<and>
                   slot_states' ! i = kReadyForQueryIssue) \<and>
                (\<forall>i. i \<notin> set reset_slots \<longrightarrow> slot_states' ! i = slot_states ! i) \<and>
                dispatch_calls (timer_query_pool s') =
                  dispatch_calls (timer_query_pool s) @
                  map (\<lambda>i. ResetQueryPoolEXT device qp i 1) reset_slots))) \<and>
       ((\<forall>cb\<in>set (concat submits). command_buffer_to_state s cb = None) \<longrightarrow> s' = s)"
    if ok0: "DoPostSubmitQueue capturing tid now queue submits pre_submit_timestamp s = Inr s'"
  proof -
    from ok0 have ok: "DoPostSubmitQueue_not_capturing submits s = Inr s'" unfolding eq .
    from not_capturing_effect [OF ok] obtain reset_slots device where
      ts: "command_buffer_to_state s' =
           (\<lambda>cb. if cb \<in> set (concat submits) then None else command_buffer_to_state s cb)" and
      fr: "s' = s\<lparr>command_buffer_to_state := command_buffer_to_state s',
                timer_query_pool := timer_query_pool s'\<rparr>" and
      rs0: "set reset_slots = referenced_slots (command_buffer_to_state s) (concat submits)" and
      e: "reset_slots = [] \<longrightarrow> timer_query_pool s' = timer_query_pool s" and
      n: "reset_slots \<noteq> [] \<longrightarrow>
               (\<forall>cb rest d. concat submits = cb # rest \<longrightarrow>
                  command_buffer_to_device s cb = Some d \<longrightarrow> d \<noteq> VK_NULL_HANDLE \<longrightarrow>
                  device = d) \<and>
               ResetQuerySlots device reset_slots (timer_query_pool s) =
                 Inr (timer_query_pool s')"
      by blast
    from rs0 have rs: "set reset_slots =
            {i. \<exists>cb\<in>set (concat submits). \<exists>state.
                  command_buffer_to_state s cb = Some state \<and>
                  (command_buffer_begin_slot_index state = Some i \<or>
                   command_buffer_end_slot_index state = Some i \<or>
                   (\<exists>marker\<in>set (markers state). slot_index marker = Some i))}"
      by (simp only: referenced_slots_fields)
    have qm: "queue_to_markers s' = queue_to_markers s"
      by (subst fr) simp
    have qs: "queue_to_submissions s' = queue_to_submissions s"
      by (subst fr) simp
    have hw: "reset_slots \<noteq> [] \<longrightarrow>
             (\<forall>cb rest d. concat submits = cb # rest \<longrightarrow>
                command_buffer_to_device s cb = Some d \<longrightarrow> d \<noteq> VK_NULL_HANDLE \<longrightarrow>
                device = d) \<and>
             ResetQuerySlots device reset_slots (timer_query_pool s) =
               Inr (timer_query_pool s') \<and>
             (\<exists>qp slot_states free_slots slot_states'.
                device_to_query_pool (timer_query_pool s) device = Some qp \<and>
                device_to_query_slots (timer_query_pool s) device = Some slot_states \<and>
                device_to_free_slots (timer_query_pool s) device = Some free_slots \<and>
                device_to_query_slots (timer_query_pool s') device = Some slot_states' \<and>
                device_to_free_slots (timer_query_pool s') device =
                  Some (free_slots @ reset_slots) \<and>
                distinct reset_slots \<and>
                (\<forall>i\<in>set reset_slots.
                   slot_states ! i = kQueryPendingOnGpu \<and>
                   slot_states' ! i = kReadyForQueryIssue) \<and>
                (\<forall>i. i \<notin> set reset_slots \<longrightarrow> slot_states' ! i = slot_states ! i) \<and>
                dispatch_calls (timer_query_pool s') =
                  dispatch_calls (timer_query_pool s) @
                  map (\<lambda>i. ResetQueryPoolEXT device qp i 1) reset_slots)"
    proof
      assume ne: "reset_slots \<noteq> []"
      with n have dv: "\<forall>cb rest d. concat submits = cb # rest \<longrightarrow>
                command_buffer_to_device s cb = Some d \<longrightarrow> d \<noteq> VK_NULL_HANDLE \<longrightarrow>
                device = d"
        and rq: "ResetQuerySlots device reset_slots (timer_query_pool s) =
               Inr (timer_query_pool s')" by blast+
      from ResetQuerySlotsInternal_effect [OF rq [unfolded ResetQuerySlots_def] ne]
      have "\<exists>qp slot_states free_slots slot_states'.
                device_to_query_pool (timer_query_pool s) device = Some qp \<and>
                device_to_query_slots (timer_query_pool s) device = Some slot_states \<and>
                device_to_free_slots (timer_query_pool s) device = Some free_slots \<and>
                device_to_query_slots (timer_query_pool s') device = Some slot_states' \<and>
                device_to_free_slots (timer_query_pool s') device =
                  Some (free_slots @ reset_slots) \<and>
                distinct reset_slots \<and>
                (\<forall>i\<in>set reset_slots.
                   slot_states ! i = kQueryPendingOnGpu \<and>
                   slot_states' ! i = kReadyForQueryIssue) \<and>
                (\<forall>i. i \<notin> set reset_slots \<longrightarrow> slot_states' ! i = slot_states ! i) \<and>
                dispatch_calls (timer_query_pool s') =
                  dispatch_calls (timer_query_pool s) @
                  map (\<lambda>i. ResetQueryPoolEXT device qp i 1) reset_slots"
        by auto
      with dv rq show "(\<forall>cb rest d. concat submits = cb # rest \<longrightarrow>
                command_buffer_to_device s cb = Some d \<longrightarrow> d \<noteq> VK_NULL_HANDLE \<longrightarrow>
                device = d) \<and>
             ResetQuerySlots device reset_slots (timer_query_pool s) =
               Inr (timer_query_pool s') \<and>
             (\<exists>qp slot_states free_slots slot_states'.
                device_to_query_pool (timer_query_pool s) device = Some qp \<and>
                device_to_query_slots (timer_query_pool s) device = Some slot_states \<and>
                device_to_free_slots (timer_query_pool s) device = Some free_slots \<and>
                device_to_query_slots (timer_query_pool s') device = Some slot_states' \<and>
                device_to_free_slots (timer_query_pool s') device =
                  Some (free_slots @ reset_slots) \<and>
                distinct reset_slots \<and>
                (\<forall>i\<in>set reset_slots.
                   slot_states ! i = kQueryPendingOnGpu \<and>
                   slot_states' ! i = kReadyForQueryIssue) \<and>
                (\<forall>i. i \<notin> set reset_slots \<longrightarrow> slot_states' ! i = slot_states ! i) \<and>
                dispatch_calls (timer_query_pool s') =
                  dispatch_calls (timer_query_pool s) @
                  map (\<lambda>i. ResetQueryPoolEXT device qp i 1) reset_slots)"
        by blast
    qed
    have nr: "(\<forall>cb\<in>set (concat submits). command_buffer_to_state s cb = None) \<longrightarrow> s' = s"
      using not_capturing_no_record [OF _ ok] by blast
    from ts fr qm qs rs e hw nr show ?thesis by blast
  qed
  from a b t c show ?thesis by blast
qed

theorem post_submit_not_capturing_witness:
  "PreSubmission False 200 = None \<and>
   (\<exists>s s'. run_hooks marked_run tracker8 = Inr s \<and>
      command_buffer_to_state s 7 = Some state7 \<and>
      queue_to_markers s 3 = Some [open_A] \<and>
      length (queue_to_submissions s) = 1 \<and>
      device_to_free_slots (timer_query_pool s) 1 = Some [0] \<and>
      DoPostSubmitQueue True 5 201 3 [[7]] (PreSubmission False 200) s = Inr s' \<and>
      command_buffer_to_state s' 7 = None \<and>
      queue_to_markers s' 3 = Some [open_A] \<and>
      queue_to_submissions s' = queue_to_submissions s \<and>
      device_to_free_slots (timer_query_pool s') 1 = Some [0, 4, 1, 3, 2] \<and>
      device_to_query_slots (timer_query_pool s') 1 =
        Some [kReadyForQueryIssue, kReadyForQueryIssue, kReadyForQueryIssue,
              kReadyForQueryIssue, kReadyForQueryIssue, kQueryPendingOnGpu,
              kQueryPendingOnGpu, kQueryPendingOnGpu] \<and>
      drop 7 (dispatch_calls (timer_query_pool s')) =
        [ResetQueryPoolEXT 1 9 4 1, ResetQueryPoolEXT 1 9 1 1,
         ResetQueryPoolEXT 1 9 3 1, ResetQueryPoolEXT 1 9 2 1]) \<and>
   DoPostSubmitQueue True 5 101 3 [[8]] (PreSubmission False 100)
       (ended7\<lparr>command_buffer_to_device := [7 \<mapsto> 1, 8 \<mapsto> 1]\<rparr>) =
     Inr (ended7\<lparr>command_buffer_to_device := [7 \<mapsto> 1, 8 \<mapsto> 1]\<rparr>) \<and>
   DoPostSubmitQueue True 5 101 3 [[8]] (PreSubmission False 100) ended7 = Inl OutOfRange"
proof -
  have pre: "PreSubmission False 200 = None" "PreSubmission False 100 = None"
    by (simp_all add: PreSubmission_def)
  then have regime: "\<not> True \<or> PreSubmission False 200 = None"
    and regime1: "\<not> True \<or> PreSubmission False 100 = None" by simp_all
  have "\<exists>s s'. run_hooks marked_run tracker8 = Inr s \<and>
      command_buffer_to_state s 7 = Some state7 \<and>
      queue_to_markers s 3 = Some [open_A] \<and>
      length (queue_to_submissions s) = 1 \<and>
      device_to_free_slots (timer_query_pool s) 1 = Some [0] \<and>
      DoPostSubmitQueue True 5 201 3 [[7]] (PreSubmission False 200) s = Inr s' \<and>
      device_to_free_slots (timer_query_pool s') 1 = Some [0, 4, 1, 3, 2] \<and>
      device_to_query_slots (timer_query_pool s') 1 =
        Some [kReadyForQueryIssue, kReadyForQueryIssue, kReadyForQueryIssue,
              kReadyForQueryIssue, kReadyForQueryIssue, kQueryPendingOnGpu,
              kQueryPendingOnGpu, kQueryPendingOnGpu] \<and>
      drop 7 (dispatch_calls (timer_query_pool s')) =
        [ResetQueryPoolEXT 1 9 4 1, ResetQueryPoolEXT 1 9 1 1,
         ResetQueryPoolEXT 1 9 3 1, ResetQueryPoolEXT 1 9 2 1]"
    by (simp add: hook_defs marked_run_def tracker8_def pool8_def state7_def open_A_def
        meta0_def numeral_eq_Suc)
  then obtain s s' where
    run: "run_hooks marked_run tracker8 = Inr s" and
    rec: "command_buffer_to_state s 7 = Some state7" and
    st: "queue_to_markers s 3 = Some [open_A]" and
    fl: "length (queue_to_submissions s) = 1" and
    fr: "device_to_free_slots (timer_query_pool s) 1 = Some [0]" and
    ok: "DoPostSubmitQueue True 5 201 3 [[7]] (PreSubmission False 200) s = Inr s'" and
    fr': "device_to_free_slots (timer_query_pool s') 1 = Some [0, 4, 1, 3, 2]" and
    sl': "device_to_query_slots (timer_query_pool s') 1 =
        Some [kReadyForQueryIssue, kReadyForQueryIssue, kReadyForQueryIssue,
              kReadyForQueryIssue, kReadyForQueryIssue, kQueryPendingOnGpu,
              kQueryPendingOnGpu, kQueryPendingOnGpu]" and
    calls: "drop 7 (dispatch_calls (timer_query_pool s')) =
        [ResetQueryPoolEXT 1 9 4 1, ResetQueryPoolEXT 1 9 1 1,
         ResetQueryPoolEXT 1 9 3 1, ResetQueryPoolEXT 1 9 2 1]"
    by blast
  note inst = post_submit_not_capturing [OF regime, of s 5 201 3 "[[7]]" s']
  from inst ok have
    ts: "command_buffer_to_state s' =
         (\<lambda>cb. if cb \<in> set (concat [[7]]) then None else command_buffer_to_state s cb)" and
    qm: "queue_to_markers s' = queue_to_markers s" and
    qs: "queue_to_submissions s' = queue_to_submissions s"
    by blast+
  from ts have a: "command_buffer_to_state s' 7 = None" by simp
  from qm st have b: "queue_to_markers s' 3 = Some [open_A]" by simp
  let ?t = "ended7\<lparr>command_buffer_to_device := [7 \<mapsto> 1, 8 \<mapsto> 1]\<rparr>"
  have "\<forall>cb\<in>set (concat [[8]]).
          command_buffer_to_state ?t cb = None \<and> command_buffer_to_device ?t cb \<noteq> None"
    by (simp add: ended7_def)
  with post_submit_not_capturing [OF regime1, of ?t 5 101 3 "[[8]]"]
  have c: "DoPostSubmitQueue True 5 101 3 [[8]] (PreSubmission False 100) ?t = Inr ?t"
    by blast
  have "command_buffer_to_state ended7 \<noteq> Map.empty \<and>
     (\<exists>cb rest. concat [[8]] = cb # rest \<and> command_buffer_to_device ended7 cb = None)"
    by (simp add: ended7_def recording0_def fun_eq_iff)
  with post_submit_not_capturing [OF regime1, of ended7 5 101 3 "[[8]]"]
  have d: "DoPostSubmitQueue True 5 101 3 [[8]] (PreSubmission False 100) ended7 =
             Inl OutOfRange"
    by blast
  from pre run rec st fl fr ok a b qs fr' sl' calls c d show ?thesis by blast
qed

subsection \<open>Post-submit while capturing\<close>

text \<open>
  Claim C1. A command buffer whose record has no end slot is meant to be left out of the
  submission. A buffer recorded while capture was off and submitted after capture was
  turned on has such a record; \<open>DoPostSubmitQueue\<close> reads the end slot with
  \<open>optional::value\<close>, which throws, so the call fails instead of dropping the buffer.
\<close>

theorem post_submit_without_end_slot_fails:
  "run_hooks [Track 1 1 [7], BeginRecording False 7, EndRecording False 7,
              PostSubmit True 5 101 3 [[7]] (PreSubmission True 100)] tracker0 =
     Inl BadOptionalAccess"
  by (simp add: hook_defs tracker0_def pool4_def)

text \<open>
  In general: a command buffer with an end slot is appended with its begin slot, if any,
  and its end slot; one without an end slot ends the call with the exception.
\<close>

lemma submit_command_buffer_with_end_slot:
  assumes "to_state cb = Some state"
    and "walk_markers meta (markers state) mst = Inr mst'"
    and "command_buffer_end_slot_index state = Some end_slot"
  shows "submit_command_buffers meta (cb # rest) (to_state, mst, submitted) =
         submit_command_buffers meta rest
           (to_state(cb := None), mst',
            submitted @
              [\<lparr>submitted_begin_slot_index = command_buffer_begin_slot_index state,
                submitted_end_slot_index = end_slot\<rparr>])"
  using assms by simp

lemma submit_command_buffer_without_end_slot:
  assumes "to_state cb = Some state"
    and "walk_markers meta (markers state) mst = Inr mst'"
    and "command_buffer_end_slot_index state = None"
  shows "submit_command_buffers meta (cb # rest) (to_state, mst, submitted) =
         Inl BadOptionalAccess"
  using assms by simp



text \<open>The step of the walk at an end entry, on a stack that is not empty.\<close>

lemma end_marker_emitted_iff_end_slot:
  assumes "type marker = kDebugMarkerEnd"
  shows "walk_markers meta (marker # rest) (open_marker # marker_stack, num_begin, completed) =
         walk_markers meta rest
           (marker_stack, num_begin,
            case slot_index marker of
              None \<Rightarrow> completed
            | Some i \<Rightarrow>
                completed @
                  [open_marker\<lparr>end_info :=
                     Some \<lparr>submitted_meta_information = meta, submitted_slot_index = i\<rparr>\<rparr>])"
  using assms by (simp split: option.splits)



lemma in_flight_append_submission_other:
  "q \<noteq> queue \<Longrightarrow>
   in_flight q (append_submission queue submission queues) = in_flight q queues"
  by (induction queues) (auto simp: in_flight_def)












text \<open>
  Claim C10. An end entry is meant to find its open marker on the queue's stack. A begin
  marker submitted while capture is off is not pushed (the not-capturing branch leaves
  the stacks alone), so an end marker submitted on the same queue after capture was
  turned on is processed on an empty stack: \<open>top\<close> and \<open>pop\<close> run on an empty
  \<open>std::stack\<close>.
\<close>

theorem end_marker_on_empty_queue_stack:
  "run_hooks [Track 1 1 [7, 8],
              BeginRecording False 7, BeginMarker False 7 ''A'' red_color, EndRecording False 7,
              PostSubmit False 5 101 3 [[7]] (PreSubmission False 100),
              BeginRecording True 8, EndMarker True 8, EndRecording True 8,
              PostSubmit True 5 201 3 [[8]] (PreSubmission True 200)] tracker0 =
     Inl UndefinedBehaviour"
  by (simp add: hook_defs tracker0_def pool4_def)

text \<open>In general, an end entry walked on an empty stack is undefined behaviour.\<close>

lemma end_entry_on_empty_stack:
  assumes "type marker = kDebugMarkerEnd"
  shows "walk_markers meta (marker # rest) ([], num_begin, completed) = Inl UndefinedBehaviour"
  using assms by simp

subsection \<open>Draining completed submissions\<close>

text \<open>
  Claim C3. The probe is meant to go to the last command buffer of the last submit-info
  that holds one. The loop that skips empty submit-infos reads
  \<open>submission.submit_infos.back()\<close> in every round instead of the element under its
  reverse iterator: a submission whose last submit-info is empty is erased without a
  probe and without being completed, whatever the driver would answer.
\<close>

theorem trailing_empty_submit_info_dropped_without_probe:
  "pull_queue ready [submission_of [info_with_end_slot 5, empty_info]] = ([], [], [])"
  by (simp add: submission_of_def info_with_end_slot_def empty_info_def option_list_def)

text \<open>
  Such a submission arises from a submit of two submit-infos of which the second has no
  command buffers; the next drain drops it without a driver call.
\<close>

lemma trailing_empty_submit_info_reached:
  "\<exists>s. run_hooks [Track 1 1 [7], BeginRecording True 7, EndRecording True 7,
                  PostSubmit True 5 101 3 [[7], []] (PreSubmission True 100)] tracker0 = Inr s \<and>
       map (\<lambda>(q, submissions).
              (q, map (\<lambda>submission. map command_buffers (submit_infos submission)) submissions))
         (queue_to_submissions s) =
         [(3, [[[\<lparr>submitted_begin_slot_index = Some 3, submitted_end_slot_index = 2\<rparr>],
                []]])] \<and>
       fst (PullCompletedSubmissions ready 1 9 s) = [] \<and>
       queue_to_submissions (snd (PullCompletedSubmissions ready 1 9 s)) = [(3, [])] \<and>
       dispatch_calls (timer_query_pool (snd (PullCompletedSubmissions ready 1 9 s))) =
         dispatch_calls (timer_query_pool s)"
  by (simp add: hook_defs tracker0_def pool4_def PullCompletedSubmissions_def numeral_eq_Suc)

text \<open>
  Claim C4, as stated, at a concrete input: the first submission of a queue is not ready
  (slot \<open>1\<close>), the second is (slot \<open>2\<close>). The scan probes both; the second is emitted and
  the first stays in flight, and a later scan emits it: the submission enqueued first is
  emitted last.
\<close>

theorem later_submission_probed_after_not_ready:
  "pull_queue only_slot_2_ready
     [submission_of [info_with_end_slot 1], submission_of [info_with_end_slot 2]] =
   ([submission_of [info_with_end_slot 1]], [submission_of [info_with_end_slot 2]], [1, 2]) \<and>
   pull_queue every_slot_ready [submission_of [info_with_end_slot 1]] =
   ([], [submission_of [info_with_end_slot 1]], [1])"
  by (simp add: submission_of_def info_with_end_slot_def option_list_def
      only_slot_2_ready_def every_slot_ready_def)

lemma find_last_command_buffer_eq:
  assumes "remaining \<noteq> []"
  shows "find_last_command_buffer ready all_infos remaining =
     (if command_buffers (last all_infos) = [] then (True, False, None)
      else
        let i = submitted_end_slot_index (last (command_buffers (last all_infos)))
        in (ready i, ready i, Some i))"
  using assms
proof (induction remaining)
  case Nil
  then show ?case by simp
next
  case (Cons it remaining)
  show ?case
  proof (cases "remaining = []")
    case True
    then show ?thesis by (simp add: Let_def)
  next
    case False
    with Cons.IH show ?thesis by (simp add: Let_def)
  qed
qed

lemma last_filter_holds:
  assumes "xs \<noteq> []" and "P (last xs)"
  shows "filter P xs \<noteq> [] \<and> last (filter P xs) = last xs"
proof -
  from assms(1) have "xs = butlast xs @ [last xs]" by simp
  then have "filter P xs = filter P (butlast xs) @ filter P [last xs]"
    by (metis filter_append)
  with assms(2) show ?thesis by simp
qed

lemma probe_slot_last:
  assumes "submit_infos submission \<noteq> []"
    and "command_buffers (last (submit_infos submission)) \<noteq> []"
  shows "probe_slot submission =
         Some (submitted_end_slot_index
                 (last (command_buffers (last (submit_infos submission)))))"
  using last_filter_holds [OF assms(1),
      of "\<lambda>submit_info. command_buffers submit_info \<noteq> []", OF assms(2)]
  by (simp add: probe_slot_def Let_def)

lemma pull_queue_filter:
  assumes "\<forall>submission\<in>set submissions. no_trailing_empty_info submission"
  shows "pull_queue ready submissions =
     (filter (\<lambda>s. \<exists>i. probe_slot s = Some i \<and> \<not> ready i) submissions,
      filter (\<lambda>s. \<exists>i. probe_slot s = Some i \<and> ready i) submissions,
      concat (map (\<lambda>s. option_list (probe_slot s)) submissions))"
  using assms
proof (induction submissions)
  case Nil
  show ?case by simp
next
  case (Cons s rest)
  from Cons.prems have nt: "no_trailing_empty_info s" by simp
  from Cons have IH: "pull_queue ready rest =
     (filter (\<lambda>s. \<exists>i. probe_slot s = Some i \<and> \<not> ready i) rest,
      filter (\<lambda>s. \<exists>i. probe_slot s = Some i \<and> ready i) rest,
      concat (map (\<lambda>s. option_list (probe_slot s)) rest))"
    by simp
  show ?case
  proof (cases "submit_infos s = []")
    case True
    then have "probe_slot s = None" by (simp add: probe_slot_def)
    with True IH show ?thesis by (simp add: option_list_def)
  next
    case False
    then have "rev (submit_infos s) \<noteq> []" by simp
    from find_last_command_buffer_eq [OF this]
    have fl: "find_last_command_buffer ready (submit_infos s) (rev (submit_infos s)) =
      (if command_buffers (last (submit_infos s)) = [] then (True, False, None)
       else
        let i = submitted_end_slot_index (last (command_buffers (last (submit_infos s))))
        in (ready i, ready i, Some i))" .
    show ?thesis
    proof (cases "command_buffers (last (submit_infos s)) = []")
      case True
      with nt have "probe_slot s = None" by (simp add: no_trailing_empty_info_def)
      with True False IH fl show ?thesis by (simp add: option_list_def)
    next
      case nonempty: False
      from probe_slot_last [OF False nonempty] nonempty False IH fl show ?thesis
        by (simp add: option_list_def Let_def)
    qed
  qed
qed

lemma pull_queues_filter:
  assumes "\<forall>(queue, submissions)\<in>set queues.
             \<forall>submission\<in>set submissions. no_trailing_empty_info submission"
  shows "pull_queues ready queues =
     (map (\<lambda>(queue, submissions).
             (queue, filter (\<lambda>s. \<exists>i. probe_slot s = Some i \<and> \<not> ready i) submissions)) queues,
      concat (map (\<lambda>(queue, submissions).
             filter (\<lambda>s. \<exists>i. probe_slot s = Some i \<and> ready i) submissions) queues),
      concat (map (\<lambda>(queue, submissions).
             concat (map (\<lambda>s. option_list (probe_slot s)) submissions)) queues))"
  using assms
proof (induction queues)
  case Nil
  show ?case by simp
next
  case (Cons entry rest)
  obtain queue submissions where entry: "entry = (queue, submissions)" by (cases entry)
  from Cons.prems entry have
    "\<forall>submission\<in>set submissions. no_trailing_empty_info submission" by simp
  from pull_queue_filter [OF this, of ready] Cons entry show ?case by simp
qed

text \<open>
  Claim C4, amended. For in-flight submissions without a trailing empty submit-info: a
  submission whose probe reports not-ready is left in place and the scan of its queue
  goes on. \<open>PullCompletedSubmissions\<close> probes every in-flight submission that holds a
  command buffer, queue by queue and in queue order, on the end slot of its last command
  buffer; it hands on exactly those whose own probe reports ready and leaves in each
  queue exactly those whose probe reports not-ready. The submissions that one scan hands
  on from a queue, and those it leaves in the queue, keep their enqueue order.
\<close>

theorem complete_submits_scans_every_submission:
  assumes "\<forall>(queue, submissions)\<in>set (queue_to_submissions s).
             \<forall>submission\<in>set submissions. no_trailing_empty_info submission"
  shows "PullCompletedSubmissions ready device query_pool s =
     (concat (map (\<lambda>(queue, submissions).
                filter (\<lambda>sub. \<exists>i. probe_slot sub = Some i \<and> ready i) submissions)
              (queue_to_submissions s)),
      s\<lparr>queue_to_submissions :=
           map (\<lambda>(queue, submissions).
                  (queue, filter (\<lambda>sub. \<exists>i. probe_slot sub = Some i \<and> \<not> ready i) submissions))
             (queue_to_submissions s),
         timer_query_pool :=
           (timer_query_pool s)
             \<lparr>dispatch_calls := dispatch_calls (timer_query_pool s) @
                map (GetQueryPoolResults device query_pool)
                  (concat (map (\<lambda>(queue, submissions).
                     concat (map (\<lambda>sub. option_list (probe_slot sub)) submissions))
                   (queue_to_submissions s)))\<rparr>\<rparr>)"
  using pull_queues_filter [OF assms, of ready]
  by (simp add: PullCompletedSubmissions_def Let_def)

theorem complete_submits_scans_every_submission_witness:
  "\<exists>s. run_hooks two_submits_run tracker0 = Inr s \<and>
     queue_to_submissions s = [(3, [first_submission, second_submission])] \<and>
     no_trailing_empty_info first_submission \<and> no_trailing_empty_info second_submission \<and>
     fst (PullCompletedSubmissions only_slot_0_ready 1 9 s) = [second_submission] \<and>
     queue_to_submissions (snd (PullCompletedSubmissions only_slot_0_ready 1 9 s)) =
       [(3, [first_submission])] \<and>
     dispatch_calls (timer_query_pool (snd (PullCompletedSubmissions only_slot_0_ready 1 9 s))) =
       dispatch_calls (timer_query_pool s) @
       [GetQueryPoolResults 1 9 2, GetQueryPoolResults 1 9 0]"
proof -
  have "\<exists>s. run_hooks two_submits_run tracker0 = Inr s \<and>
     queue_to_submissions s = [(3, [first_submission, second_submission])]"
    by (simp add: hook_defs two_submits_run_def tracker0_def pool4_def first_submission_def
        second_submission_def meta0_def numeral_eq_Suc)
  then obtain s where run: "run_hooks two_submits_run tracker0 = Inr s"
    and qs: "queue_to_submissions s = [(3, [first_submission, second_submission])]"
    by blast
  have p1: "probe_slot first_submission = Some 2"
    and p2: "probe_slot second_submission = Some 0"
    by (simp_all add: probe_slot_def first_submission_def second_submission_def)
  have nt: "no_trailing_empty_info first_submission" "no_trailing_empty_info second_submission"
    by (simp_all add: no_trailing_empty_info_def first_submission_def second_submission_def)
  with qs have hyp: "\<forall>(queue, submissions)\<in>set (queue_to_submissions s).
             \<forall>submission\<in>set submissions. no_trailing_empty_info submission"
    by simp
  note inst = complete_submits_scans_every_submission [OF hyp, of only_slot_0_ready 1 9]
  have a: "fst (PullCompletedSubmissions only_slot_0_ready 1 9 s) = [second_submission]"
    unfolding inst by (simp add: qs p1 p2 only_slot_0_ready_def)
  have b: "queue_to_submissions (snd (PullCompletedSubmissions only_slot_0_ready 1 9 s)) =
       [(3, [first_submission])]"
    unfolding inst by (simp add: qs p1 p2 only_slot_0_ready_def)
  have c: "dispatch_calls
             (timer_query_pool (snd (PullCompletedSubmissions only_slot_0_ready 1 9 s))) =
       dispatch_calls (timer_query_pool s) @
       [GetQueryPoolResults 1 9 2, GetQueryPoolResults 1 9 0]"
    unfolding inst by (simp add: qs p1 p2 option_list_def)
  from run qs nt a b c show ?thesis by blast
qed


end
